theory Spec2Isabelle
  imports Complex_Main
begin

section \<open>Python built-ins used by stress_tester.py\<close>

text \<open>
  \<^verbatim>\<open>range(start, stop, step)\<close> for a positive step, as a list. Its length is
  \<open>max 0 ((stop - start + step - 1) // step)\<close>. The program only calls \<open>range\<close> with the
  literal steps 1, 2 and 4096.
\<close>

definition py_range :: "int \<Rightarrow> int \<Rightarrow> int \<Rightarrow> int list" where
  "py_range start stop step =
     map (\<lambda>k. start + int k * step) [0 ..< nat ((stop - start + step - 1) div step)]"

text \<open>
  \<^verbatim>\<open>range(n)\<close> as the list of indices \<open>0, ..., n - 1\<close>; empty when \<open>n \<le> 0\<close>.
\<close>

definition range1 :: "int \<Rightarrow> nat list" where
  "range1 n = [0 ..< nat n]"

text \<open>The exceptions of the Python runtime that the modelled code can meet.\<close>

datatype exn = ValueError | ZeroDivisionError | MemoryError | OverflowError

text \<open>
  Waiting for a list of concurrent workers (\<^verbatim>\<open>pool.join()\<close>, \<^verbatim>\<open>worker.join()\<close>):
  the parent goes on only when every worker has finished. \<open>None\<close> is a worker that has not
  finished within the environment's answers.
\<close>

fun join_all :: "'a option list \<Rightarrow> 'a list option" where
  "join_all [] = Some []"
| "join_all (None # rs) = None"
| "join_all (Some r # rs) = (case join_all rs of None \<Rightarrow> None | Some xs \<Rightarrow> Some (r # xs))"

text \<open>
  Two constant environments for the examples: \<open>every_worker x\<close> gives every worker the same
  \<open>x\<close>, and \<open>always b\<close> answers every allocation with \<open>b\<close>.
\<close>

definition every_worker :: "'a \<Rightarrow> nat \<Rightarrow> 'a" where
  "every_worker x i = x"

definition always :: "bool \<Rightarrow> nat \<Rightarrow> bool" where
  "always b i = b"

section \<open>The deadline\<close>

text \<open>
  Every worker loop is guarded by \<^verbatim>\<open>time.time() - start_time < duration\<close>
  (lines 68, 134, 191, 227). Clock readings and durations are modelled as real numbers.
  \<open>expired\<close> is the negation of the guard: the loop is left.
\<close>

definition within_budget :: "real \<Rightarrow> real \<Rightarrow> real \<Rightarrow> bool" where
  "within_budget start_time duration now = (now - start_time < duration)"

definition expired :: "real \<Rightarrow> real \<Rightarrow> real \<Rightarrow> bool" where
  "expired start_time duration now = (\<not> within_budget start_time duration now)"

section \<open>CPU stress test\<close>

text \<open>
  The loop of \<^verbatim>\<open>is_prime\<close> (lines 57 to 60): returns \<open>False\<close> at the first \<open>i\<close> of the
  range that divides \<open>n\<close>, \<open>True\<close> when the range is used up.
\<close>

fun trial_loop :: "int \<Rightarrow> int list \<Rightarrow> bool" where
  "trial_loop n [] = True"
| "trial_loop n (i # rest) = (if n mod i = 0 then False else trial_loop n rest)"

text \<open>
  \<^verbatim>\<open>is_prime(n)\<close>, lines 49 to 60. The bound of the range, \<^verbatim>\<open>int(n**0.5)\<close>, is computed
  by the program in double-precision floating point; it is the parameter \<open>fsqrt\<close> here
  (\<open>fsqrt n\<close> is the value of \<^verbatim>\<open>int(n**0.5)\<close>), so that nothing is assumed about its
  rounding; \<open>is_prime_double\<close> below is the function with the bound computed in double
  precision.
\<close>

definition is_prime :: "(int \<Rightarrow> int) \<Rightarrow> int \<Rightarrow> bool" where
  "is_prime fsqrt n =
     (if n < 2 then False
      else if n = 2 then True
      else if n mod 2 = 0 then False
      else trial_loop n (py_range 3 (fsqrt n + 1) 2))"

text \<open>
  An exact integer square root, by counting upwards: the value \<open>fsqrt\<close> has wherever the
  floating-point computation is exact.
\<close>

function isqrt_from :: "int \<Rightarrow> int \<Rightarrow> int" where
  "isqrt_from n r = (if 0 \<le> r \<and> (r + 1) * (r + 1) \<le> n then isqrt_from n (r + 1) else r)"
  by pat_completeness auto
termination
proof (relation "measure (\<lambda>(n, r). nat (n - r))")
  show "wf (measure (\<lambda>(n, r). nat (n - r)))" by simp
next
  fix n r :: int
  assume a: "0 \<le> r \<and> (r + 1) * (r + 1) \<le> n"
  then have "r + 1 \<le> (r + 1) * (r + 1)"
    by (simp add: mult_le_cancel_left1)
  with a have "r < n" by linarith
  then show "((n, r + 1), (n, r)) \<in> measure (\<lambda>(n, r). nat (n - r))" by simp
qed

definition isqrt :: "int \<Rightarrow> int" where
  "isqrt n = isqrt_from n 0"







text \<open>
  The specification's words, for comparison with \<open>is_prime\<close>: \<open>n < 2\<close> is not prime,
  2 is prime, an even number is not prime, otherwise \<open>n\<close> is prime iff no odd number from
  3 to \<open>floor (sqrt n)\<close> inclusive divides it.
\<close>

definition floor_sqrt :: "int \<Rightarrow> int" where
  "floor_sqrt n = \<lfloor>sqrt (real_of_int n)\<rfloor>"

definition trial_division_prime :: "int \<Rightarrow> bool" where
  "trial_division_prime n =
     (if n < 2 then False
      else if n = 2 then True
      else if even n then False
      else (\<forall>d \<in> {3 .. floor_sqrt n}. odd d \<longrightarrow> \<not> d dvd n))"

text \<open>
  Primality itself, for comparison: \<open>n\<close> is at least 2 and no number from 2 to \<open>n - 1\<close>
  divides it.
\<close>

definition prime_int :: "int \<Rightarrow> bool" where
  "prime_int n = (2 \<le> n \<and> (\<forall>d \<in> {2 ..< n}. \<not> d dvd n))"

text \<open>
  The loop of \<^verbatim>\<open>cpu_worker\<close> (lines 68 to 71). Each evaluation of the guard reads the
  clock once; \<open>clock\<close> lists the readings still to come. When the readings end before one
  of them is past the deadline the loop has not finished: \<open>None\<close>. The result is the pair
  of the local variables \<open>count\<close> and \<open>num\<close> when the loop is left.
\<close>

fun cpu_loop :: "(int \<Rightarrow> int) \<Rightarrow> real \<Rightarrow> real \<Rightarrow> real list \<Rightarrow> nat \<Rightarrow> int \<Rightarrow> (nat \<times> int) option" where
  "cpu_loop fsqrt duration start_time [] count num = None"
| "cpu_loop fsqrt duration start_time (now # clock) count num =
     (if within_budget start_time duration now
      then cpu_loop fsqrt duration start_time clock
             (if is_prime fsqrt num then count + 1 else count) (num + 1)
      else Some (count, num))"

text \<open>
  \<^verbatim>\<open>cpu_worker(worker_id, duration, start_time)\<close>, lines 62 to 74: \<open>count = 0\<close>, \<open>num = 2\<close>,
  the loop, \<^verbatim>\<open>return count\<close>. The two status lines it prints are left out.
\<close>

definition cpu_worker :: "(int \<Rightarrow> int) \<Rightarrow> real list \<Rightarrow> nat \<Rightarrow> real \<Rightarrow> real \<Rightarrow> nat option" where
  "cpu_worker fsqrt clock worker_id duration start_time =
     map_option fst (cpu_loop fsqrt duration start_time clock 0 2)"

text \<open>
  The specification's words for the CPU worker, for comparison: the candidates are 2 and
  then the successive odd integers 3, 5, 7, ...; one candidate is tested per loop
  iteration and the primes among them are counted.
\<close>

definition odd_candidates :: "nat \<Rightarrow> int list" where
  "odd_candidates k = take k (2 # map (\<lambda>i. 2 * int i + 3) [0 ..< k])"

definition cpu_worker_odd_spec :: "(int \<Rightarrow> int) \<Rightarrow> real list \<Rightarrow> real \<Rightarrow> real \<Rightarrow> nat option" where
  "cpu_worker_odd_spec fsqrt clock duration start_time =
     (if \<exists>now \<in> set clock. expired start_time duration now
      then Some (length (filter (is_prime fsqrt)
             (odd_candidates (length (takeWhile (within_budget start_time duration) clock)))))
      else None)"

text \<open>
  \<^verbatim>\<open>stress_cpu(cores, duration)\<close>, lines 76 to 101. \<open>cpu_count\<close> is the value of
  \<^verbatim>\<open>multiprocessing.cpu_count()\<close>, \<open>start_time\<close> the clock reading of line 85, and
  \<open>clocks i\<close> the readings of worker \<open>i\<close>, which runs in a process of its own.
  \<^verbatim>\<open>multiprocessing.Pool(processes=cores)\<close> raises \<open>ValueError\<close> when \<open>cores < 1\<close>.
  The report holds the list \<open>results\<close> (one entry per \<^verbatim>\<open>apply_async\<close>, read with
  \<^verbatim>\<open>r.get()\<close>) and their sum.
\<close>

record cpu_report =
  results :: "nat list"
  total_primes :: nat

definition stress_cpu ::
  "(int \<Rightarrow> int) \<Rightarrow> int \<Rightarrow> real \<Rightarrow> (nat \<Rightarrow> real list) \<Rightarrow> int option \<Rightarrow> real \<Rightarrow> (exn + cpu_report) option" where
  "stress_cpu fsqrt cpu_count start_time clocks cores_arg duration =
     (let cores = (case cores_arg of None \<Rightarrow> cpu_count | Some c \<Rightarrow> c) in
      if cores < 1 then Some (Inl ValueError)
      else
        (case join_all (map (\<lambda>i. cpu_worker fsqrt (clocks i) i duration start_time) (range1 cores)) of
           None \<Rightarrow> None
         | Some rs \<Rightarrow> Some (Inr \<lparr>results = rs, total_primes = sum_list rs\<rparr>)))"

section \<open>RAM stress test\<close>

text \<open>
  What \<^verbatim>\<open>print_header\<close> and \<^verbatim>\<open>print_status\<close> write, without colours and timestamps.
  A message keeps the arguments of its format string:
  \<^item> \<open>RamStarted w mb\<close>: "RAM Worker w started - Allocating mbMB" (line 109);
  \<^item> \<open>Allocated w mb\<close>: "Worker w: Allocated mbMB" (line 129);
  \<^item> \<open>AllocSuccess w mb\<close>: "Worker w: Successfully allocated mbMB" (line 131);
  \<^item> \<open>RamFinished w\<close>: "RAM Worker w finished" (line 140);
  \<^item> \<open>AllocFailed w\<close>: "Worker w: Memory allocation failed!" (line 143);
  \<^item> \<open>StartingClients n\<close>: "Starting n client workers connecting to host:port" (line 259);
  \<^item> \<open>NetworkCompleted\<close>: "Network stress test completed" (line 273);
  \<^item> \<open>InvalidMode\<close>: "Invalid network mode. Use 'server' or 'client'" (line 275).
\<close>

datatype level = Info | Success | Warning | Error

datatype message =
    RamStarted nat int
  | Allocated nat nat
  | AllocSuccess nat int
  | RamFinished nat
  | AllocFailed nat
  | StartingClients int
  | NetworkCompleted
  | InvalidMode

datatype entry = Header string | Status message level

definition print_header :: "string \<Rightarrow> entry list \<Rightarrow> entry list" where
  "print_header text out = out @ [Header text]"

definition print_status :: "message \<Rightarrow> level \<Rightarrow> entry list \<Rightarrow> entry list" where
  "print_status text status out = out @ [Status text status]"

text \<open>
  A block is a \<^verbatim>\<open>bytearray\<close>: a list of numbers below 256. \<^verbatim>\<open>bytearray(chunk_size)\<close> is
  \<open>chunk_size\<close> zeros.
\<close>

type_synonym block = "nat list"

definition chunk_size :: nat where
  "chunk_size = 1024 * 1024"

text \<open>
  Lines 122 to 125: a fresh block of chunk \<open>i\<close> after the write loop
  \<^verbatim>\<open>for j in range(0, chunk_size, 4096): block[j] = (i + j) % 256\<close>.
\<close>

definition write_pattern :: "nat \<Rightarrow> block \<Rightarrow> int list \<Rightarrow> block" where
  "write_pattern i block js = foldl (\<lambda>b j. b[nat j := nat ((int i + j) mod 256)]) block js"

definition fill_block :: "nat \<Rightarrow> block" where
  "fill_block i = write_pattern i (replicate chunk_size 0) (py_range 0 (int chunk_size) 4096)"

text \<open>
  The state of one RAM worker: the local list \<^verbatim>\<open>memory_blocks\<close> and what the worker has
  printed.
\<close>

record ram_state =
  memory_blocks :: "block list"
  out :: "entry list"

text \<open>
  The allocation loop, lines 120 to 129, over the indices of \<^verbatim>\<open>range(num_chunks)\<close>.
  \<open>alloc_ok i\<close> says whether \<^verbatim>\<open>bytearray(chunk_size)\<close> of iteration \<open>i\<close> gets its memory;
  when it does not, \<open>MemoryError\<close> leaves the loop at once, with the blocks appended so
  far.
\<close>

fun alloc_loop :: "(nat \<Rightarrow> bool) \<Rightarrow> nat \<Rightarrow> nat list \<Rightarrow> ram_state \<Rightarrow> exn option \<times> ram_state" where
  "alloc_loop alloc_ok worker_id [] s = (None, s)"
| "alloc_loop alloc_ok worker_id (i # rest) s =
     (if \<not> alloc_ok i then (Some MemoryError, s)
      else
        let s1 = s\<lparr>memory_blocks := memory_blocks s @ [fill_block i]\<rparr>;
            s2 = (if (i + 1) mod 100 = 0
                  then s1\<lparr>out := print_status (Allocated worker_id (i + 1)) Info (out s1)\<rparr>
                  else s1)
        in alloc_loop alloc_ok worker_id rest s2)"

text \<open>
  Lines 136 and 137: the first byte of every tenth block (\<^verbatim>\<open>memory_blocks[::10]\<close>) is
  incremented modulo 256. The blocks are shared with \<^verbatim>\<open>memory_blocks\<close>, so the list
  itself changes. A block is never empty (it has \<open>chunk_size\<close> bytes).
\<close>

definition touch :: "block \<Rightarrow> block" where
  "touch b = (case b of [] \<Rightarrow> [] | x # xs \<Rightarrow> ((x + 1) mod 256) # xs)"

definition touch_blocks :: "block list \<Rightarrow> block list" where
  "touch_blocks blocks =
     map (\<lambda>(k, b). if k mod 10 = 0 then touch b else b) (zip [0 ..< length blocks] blocks)"

text \<open>
  The hold loop, lines 134 to 138: one clock reading per evaluation of the guard; the
  sleep of 0.1 s only lets time pass. \<open>None\<close>: the readings ended before the deadline.
\<close>

fun hold_loop :: "real \<Rightarrow> real \<Rightarrow> real list \<Rightarrow> block list \<Rightarrow> block list option" where
  "hold_loop duration start_time [] blocks = None"
| "hold_loop duration start_time (now # clock) blocks =
     (if within_budget start_time duration now
      then hold_loop duration start_time clock (touch_blocks blocks)
      else Some blocks)"

text \<open>
  \<^verbatim>\<open>ram_worker(worker_id, size_mb, duration)\<close>, lines 107 to 145. The first clock reading
  is \<open>start_time\<close> (line 116). The function returns nothing in Python; the model returns
  the worker's state when it returns. \<open>MemoryError\<close> is the only exception the modelled
  body can raise, so the handler of line 144 is never entered.
\<close>

definition ram_worker :: "real list \<Rightarrow> (nat \<Rightarrow> bool) \<Rightarrow> nat \<Rightarrow> int \<Rightarrow> real \<Rightarrow> ram_state option" where
  "ram_worker clock alloc_ok worker_id size_mb duration =
     (case clock of
        [] \<Rightarrow> None
      | start_time # clock' \<Rightarrow>
          let s0 = \<lparr>memory_blocks = [],
                    out = print_status (RamStarted worker_id size_mb) Success []\<rparr>
          in
          (case alloc_loop alloc_ok worker_id (range1 size_mb) s0 of
             (Some e, s1) \<Rightarrow>
               Some (s1\<lparr>out := print_status (AllocFailed worker_id) Error (out s1)\<rparr>)
           | (None, s1) \<Rightarrow>
               let s2 = s1\<lparr>out := print_status (AllocSuccess worker_id size_mb) Success (out s1)\<rparr>
               in
               (case hold_loop duration start_time clock' (memory_blocks s2) of
                  None \<Rightarrow> None
                | Some blocks \<Rightarrow>
                    Some (s2\<lparr>memory_blocks := blocks,
                             out := print_status (RamFinished worker_id) Success (out s2)\<rparr>))))"

text \<open>The bytes a worker holds: the sum of the lengths of its blocks.\<close>

definition bytes_allocated :: "ram_state \<Rightarrow> nat" where
  "bytes_allocated s = sum_list (map length (memory_blocks s))"

text \<open>
  Lines 155 to 166 of \<^verbatim>\<open>stress_ram\<close>: one thread per index of \<^verbatim>\<open>range(threads)\<close>, each
  running \<^verbatim>\<open>ram_worker(i, size_per_thread, duration)\<close>, then the joins. \<open>thread_args\<close> is
  the list of the argument tuples of line 159. Worker \<open>i\<close> has its own clock readings
  \<open>clocks i\<close> and allocation answers \<open>alloc_ok i\<close>; the workers share no variable.
\<close>

definition thread_args :: "int \<Rightarrow> real \<Rightarrow> int \<Rightarrow> (nat \<times> int \<times> real) list" where
  "thread_args size_per_thread duration threads =
     map (\<lambda>i. (i, size_per_thread, duration)) (range1 threads)"

definition run_ram_workers ::
  "(nat \<Rightarrow> real list) \<Rightarrow> (nat \<Rightarrow> nat \<Rightarrow> bool) \<Rightarrow> int \<Rightarrow> real \<Rightarrow> int \<Rightarrow> ram_state list option" where
  "run_ram_workers clocks alloc_ok size_per_thread duration threads =
     join_all (map (\<lambda>(i, mb, d). ram_worker (clocks i) (alloc_ok i) i mb d)
                   (thread_args size_per_thread duration threads))"

text \<open>
  \<^verbatim>\<open>stress_ram(size_mb, duration, threads)\<close>, lines 147 to 168. \<^verbatim>\<open>size_mb // threads\<close>
  (line 153) raises \<open>ZeroDivisionError\<close> when \<open>threads\<close> is 0; Python's \<open>//\<close> rounds
  towards minus infinity, as \<open>div\<close> on \<open>int\<close> does.
\<close>

definition stress_ram ::
  "(nat \<Rightarrow> real list) \<Rightarrow> (nat \<Rightarrow> nat \<Rightarrow> bool) \<Rightarrow> int \<Rightarrow> real \<Rightarrow> int \<Rightarrow> (exn + ram_state list) option" where
  "stress_ram clocks alloc_ok size_mb duration threads =
     (if threads = 0 then Some (Inl ZeroDivisionError)
      else
        let size_per_thread = size_mb div threads in
        map_option Inr (run_ram_workers clocks alloc_ok size_per_thread duration threads))"

section \<open>Network stress test\<close>

text \<open>
  The network functions call into the environment: the clock and the sockets. Each call
  gets one answer: \<open>Clock t\<close> for \<^verbatim>\<open>time.time()\<close>; for a socket call \<open>Returns\<close>,
  \<open>Data n\<close> (\<^verbatim>\<open>recv\<close> returned \<open>n\<close> bytes), \<open>TimedOut\<close> (\<^verbatim>\<open>socket.timeout\<close>) or
  \<open>Raises\<close> (another exception). A function is run as a machine that takes one answer
  per step; its control point says which call is waiting. An answer that the waiting call
  cannot give leaves the state as it is.
\<close>

datatype answer = Clock real | Returns | Data nat | TimedOut | Raises

text \<open>\<^verbatim>\<open>data = b"X" * 1024\<close>, line 224.\<close>

definition data :: string where
  "data = replicate 1024 (CHR ''X'')"

text \<open>
  Control points of \<^verbatim>\<open>network_client\<close> (lines 216 to 250):
  \<^item> \<open>CStart\<close>: \<^verbatim>\<open>start_time = time.time()\<close>, line 220;
  \<^item> \<open>CGuard\<close>: the guard of line 227;
  \<^item> \<open>CSocket\<close>: \<^verbatim>\<open>socket.socket(...)\<close> and \<^verbatim>\<open>settimeout\<close>, lines 229 and 230;
  \<^item> \<open>CConnect\<close>: line 231;
  \<^item> \<open>CSend k\<close>: \<^verbatim>\<open>sendall(data)\<close>, line 235, in iteration \<open>k\<close> of \<^verbatim>\<open>range(100)\<close>;
  \<^item> \<open>CRecv k\<close>: \<^verbatim>\<open>recv(4096)\<close>, line 237, in iteration \<open>k\<close>;
  \<^item> \<open>CClose\<close>: \<^verbatim>\<open>close()\<close>, line 240, after \<^verbatim>\<open>requests += 1\<close>;
  \<^item> \<open>CDone\<close>: the function has returned.
  The handler of lines 246 to 248 and the sleeps make no call that is answered, and lead
  back to the guard.
\<close>

datatype client_pc = CStart | CGuard | CSocket | CConnect | CSend nat | CRecv nat | CClose | CDone

record client =
  cpc :: client_pc
  cstart :: real
  bytes_sent :: nat
  requests :: nat
  csockets :: nat

definition client_init :: client where
  "client_init = \<lparr>cpc = CStart, cstart = 0, bytes_sent = 0, requests = 0, csockets = 0\<rparr>"

definition client_step :: "real \<Rightarrow> client \<Rightarrow> answer \<Rightarrow> client" where
  "client_step duration c a =
     (case cpc c of
        CStart \<Rightarrow> (case a of Clock t \<Rightarrow> c\<lparr>cpc := CGuard, cstart := t\<rparr> | _ \<Rightarrow> c)
      | CGuard \<Rightarrow>
          (case a of
             Clock t \<Rightarrow> if within_budget (cstart c) duration t then c\<lparr>cpc := CSocket\<rparr>
                        else c\<lparr>cpc := CDone\<rparr>
           | _ \<Rightarrow> c)
      | CSocket \<Rightarrow>
          (case a of
             Returns \<Rightarrow> c\<lparr>cpc := CConnect, csockets := csockets c + 1\<rparr>
           | Raises \<Rightarrow> c\<lparr>cpc := CGuard\<rparr>
           | _ \<Rightarrow> c)
      | CConnect \<Rightarrow>
          (case a of
             Returns \<Rightarrow> c\<lparr>cpc := CSend 0\<rparr>
           | TimedOut \<Rightarrow> c\<lparr>cpc := CGuard\<rparr>
           | Raises \<Rightarrow> c\<lparr>cpc := CGuard\<rparr>
           | _ \<Rightarrow> c)
      | CSend k \<Rightarrow>
          (case a of
             Returns \<Rightarrow> c\<lparr>cpc := CRecv k, bytes_sent := bytes_sent c + length data\<rparr>
           | TimedOut \<Rightarrow> c\<lparr>cpc := CGuard\<rparr>
           | Raises \<Rightarrow> c\<lparr>cpc := CGuard\<rparr>
           | _ \<Rightarrow> c)
      | CRecv k \<Rightarrow>
          (case a of
             Data n \<Rightarrow> if k + 1 < 100 then c\<lparr>cpc := CSend (k + 1)\<rparr>
                       else c\<lparr>cpc := CClose, requests := requests c + 1\<rparr>
           | TimedOut \<Rightarrow> c\<lparr>cpc := CGuard\<rparr>
           | Raises \<Rightarrow> c\<lparr>cpc := CGuard\<rparr>
           | _ \<Rightarrow> c)
      | CClose \<Rightarrow>
          (case a of
             Returns \<Rightarrow> c\<lparr>cpc := CGuard\<rparr>
           | Raises \<Rightarrow> c\<lparr>cpc := CGuard\<rparr>
           | _ \<Rightarrow> c)
      | CDone \<Rightarrow> c)"

text \<open>
  \<^verbatim>\<open>network_client(host, port, duration, worker_id)\<close> run on a list of answers: the state
  reached when the answers are used up. The host, the port and the worker's number only
  go into socket calls and messages.
\<close>

definition client_run :: "real \<Rightarrow> client \<Rightarrow> answer list \<Rightarrow> client" where
  "client_run duration c answers = foldl (client_step duration) c answers"

definition network_client :: "answer list \<Rightarrow> real \<Rightarrow> nat \<Rightarrow> client option" where
  "network_client answers duration worker_id =
     (let c = client_run duration client_init answers
      in if cpc c = CDone then Some c else None)"

text \<open>
  The answers of one connection in which every call succeeds: the guard reads a clock
  value \<open>t\<close>, then \<^verbatim>\<open>socket\<close>, \<^verbatim>\<open>connect\<close>, 100 times \<^verbatim>\<open>sendall\<close> and \<^verbatim>\<open>recv\<close> (the
  echo of the 1024 bytes), and \<^verbatim>\<open>close\<close>.
\<close>

definition full_connection :: "real \<Rightarrow> answer list" where
  "full_connection t =
     Clock t # Returns # Returns # concat (replicate 100 [Returns, Data 1024]) @ [Returns]"

text \<open>
  Control points of \<^verbatim>\<open>network_server\<close> (lines 174 to 214):
  \<^item> \<open>SSetup\<close>: the listening socket, lines 178 to 182; an exception here is outside
    every \<^verbatim>\<open>try\<close> and leaves the function (\<open>SRaised\<close>);
  \<^item> \<open>SStart\<close>: \<^verbatim>\<open>start_time = time.time()\<close>, line 184;
  \<^item> \<open>SGuard\<close>: the guard of line 191;
  \<^item> \<open>SAccept\<close>: \<^verbatim>\<open>accept()\<close>, line 193; a timeout continues the loop, another exception
    is printed and the loop goes on;
  \<^item> \<open>SRecv\<close>: \<^verbatim>\<open>recv(4096)\<close>, line 199: at most 4096 bytes, none when the peer has closed;
  \<^item> \<open>SEcho\<close>: \<^verbatim>\<open>sendall(data)\<close>, line 204;
  \<^item> \<open>SClose\<close>: \<^verbatim>\<open>client_socket.close()\<close>, line 206;
  \<^item> \<open>SDone\<close>: the listening socket is closed and the function has returned.
\<close>

datatype server_pc = SSetup | SStart | SGuard | SAccept | SRecv | SEcho | SClose | SDone | SRaised

record server =
  spc :: server_pc
  sstart :: real
  bytes_received :: nat
  connections :: nat
  ssockets :: nat

definition server_init :: server where
  "server_init = \<lparr>spc = SSetup, sstart = 0, bytes_received = 0, connections = 0, ssockets = 0\<rparr>"

definition server_step :: "real \<Rightarrow> server \<Rightarrow> answer \<Rightarrow> server" where
  "server_step duration s a =
     (case spc s of
        SSetup \<Rightarrow>
          (case a of
             Returns \<Rightarrow> s\<lparr>spc := SStart, ssockets := ssockets s + 1\<rparr>
           | Raises \<Rightarrow> s\<lparr>spc := SRaised\<rparr>
           | _ \<Rightarrow> s)
      | SStart \<Rightarrow> (case a of Clock t \<Rightarrow> s\<lparr>spc := SGuard, sstart := t\<rparr> | _ \<Rightarrow> s)
      | SGuard \<Rightarrow>
          (case a of
             Clock t \<Rightarrow> if within_budget (sstart s) duration t then s\<lparr>spc := SAccept\<rparr>
                        else s\<lparr>spc := SDone\<rparr>
           | _ \<Rightarrow> s)
      | SAccept \<Rightarrow>
          (case a of
             Returns \<Rightarrow> s\<lparr>spc := SRecv, connections := connections s + 1,
                            ssockets := ssockets s + 1\<rparr>
           | TimedOut \<Rightarrow> s\<lparr>spc := SGuard\<rparr>
           | Raises \<Rightarrow> s\<lparr>spc := SGuard\<rparr>
           | _ \<Rightarrow> s)
      | SRecv \<Rightarrow>
          (case a of
             Data n \<Rightarrow> if n = 0 then s\<lparr>spc := SClose\<rparr>
                       else if n \<le> 4096
                       then s\<lparr>spc := SEcho, bytes_received := bytes_received s + n\<rparr>
                       else s
           | TimedOut \<Rightarrow> s\<lparr>spc := SGuard\<rparr>
           | Raises \<Rightarrow> s\<lparr>spc := SGuard\<rparr>
           | _ \<Rightarrow> s)
      | SEcho \<Rightarrow>
          (case a of
             Returns \<Rightarrow> s\<lparr>spc := SRecv\<rparr>
           | TimedOut \<Rightarrow> s\<lparr>spc := SGuard\<rparr>
           | Raises \<Rightarrow> s\<lparr>spc := SGuard\<rparr>
           | _ \<Rightarrow> s)
      | SClose \<Rightarrow>
          (case a of
             Returns \<Rightarrow> s\<lparr>spc := SGuard\<rparr>
           | Raises \<Rightarrow> s\<lparr>spc := SGuard\<rparr>
           | _ \<Rightarrow> s)
      | SDone \<Rightarrow> s
      | SRaised \<Rightarrow> s)"

definition server_run :: "real \<Rightarrow> server \<Rightarrow> answer list \<Rightarrow> server" where
  "server_run duration s answers = foldl (server_step duration) s answers"

text \<open>
  \<^verbatim>\<open>network_server(host, port, duration)\<close> on a list of answers: the final state when the
  function has returned or raised, \<open>None\<close> when the answers end before that.
\<close>

definition network_server :: "answer list \<Rightarrow> real \<Rightarrow> server option" where
  "network_server answers duration =
     (let s = server_run duration server_init answers
      in if spc s = SDone \<or> spc s = SRaised then Some s else None)"

text \<open>
  \<^verbatim>\<open>stress_network(mode, host, port, duration, clients)\<close>, lines 252 to 275. The report
  has what the function itself printed, the run of \<^verbatim>\<open>network_server\<close> if it was called,
  and the runs of the client threads that were started. \<open>server_answers\<close> and
  \<open>client_answers i\<close> are the environment's answers to the server and to client \<open>i\<close>.
\<close>

record net_report =
  printed :: "entry list"
  server_of :: "server option"
  clients_of :: "client list"

definition stress_network ::
  "answer list \<Rightarrow> (nat \<Rightarrow> answer list) \<Rightarrow> string \<Rightarrow> real \<Rightarrow> int \<Rightarrow> net_report option" where
  "stress_network server_answers client_answers mode duration clients =
     (let out0 = print_header ''NETWORK STRESS TEST'' [] in
      if mode = ''server'' then
        (case network_server server_answers duration of
           None \<Rightarrow> None
         | Some s \<Rightarrow> Some \<lparr>printed = out0, server_of = Some s, clients_of = []\<rparr>)
      else if mode = ''client'' then
        (let out1 = print_status (StartingClients clients) Info out0 in
         case join_all (map (\<lambda>i. network_client (client_answers i) duration i) (range1 clients)) of
           None \<Rightarrow> None
         | Some cs \<Rightarrow>
             Some \<lparr>printed = print_status NetworkCompleted Success out1,
                   server_of = None, clients_of = cs\<rparr>)
      else
        Some \<lparr>printed = print_status InvalidMode Error out0, server_of = None, clients_of = []\<rparr>)"

text \<open>
  What a run of \<^verbatim>\<open>stress_network\<close> has done: the workers it started (the server call
  counts as one), the sockets that were created or accepted, and the bytes that went
  over them.
\<close>

definition workers_started :: "net_report \<Rightarrow> nat" where
  "workers_started r = (case server_of r of None \<Rightarrow> 0 | Some s \<Rightarrow> 1) + length (clients_of r)"

definition sockets_opened :: "net_report \<Rightarrow> nat" where
  "sockets_opened r =
     (case server_of r of None \<Rightarrow> 0 | Some s \<Rightarrow> ssockets s) + sum_list (map csockets (clients_of r))"

definition bytes_transferred :: "net_report \<Rightarrow> nat" where
  "bytes_transferred r =
     (case server_of r of None \<Rightarrow> 0 | Some s \<Rightarrow> bytes_received s)
       + sum_list (map bytes_sent (clients_of r))"

text \<open>
  The invariant of the client's counters, by control point: in iteration \<open>k\<close> of the send
  loop the \<open>k\<close> sends already made (and the one just made, when the echo is awaited) are
  counted in \<open>bytes_sent\<close> but not yet in \<open>requests\<close>.
\<close>

definition client_inv :: "client \<Rightarrow> bool" where
  "client_inv c =
     (case cpc c of
        CSend k \<Rightarrow> k < 100 \<and> 102400 * requests c + 1024 * k \<le> bytes_sent c
      | CRecv k \<Rightarrow> k < 100 \<and> 102400 * requests c + 1024 * (k + 1) \<le> bytes_sent c
      | _ \<Rightarrow> 102400 * requests c \<le> bytes_sent c)"

section \<open>Properties: the primality test\<close>

lemma set_py_range_odd: "set (py_range 3 (r + 1) 2) = {d. 3 \<le> d \<and> d \<le> r \<and> odd d}"
proof (intro set_eqI iffI)
  fix d assume "d \<in> set (py_range 3 (r + 1) 2)"
  then obtain k where k: "k < nat ((r - 1) div 2)" and d: "d = 3 + int k * 2"
    by (auto simp: py_range_def)
  from k have "int k < (r - 1) div 2" by linarith
  then have "2 * int k + 3 \<le> r" by linarith
  with d show "d \<in> {d. 3 \<le> d \<and> d \<le> r \<and> odd d}" by simp
next
  fix d assume "d \<in> {d. 3 \<le> d \<and> d \<le> r \<and> odd d}"
  then have d: "3 \<le> d" "d \<le> r" "odd d" by simp_all
  define k where "k = nat ((d - 3) div 2)"
  from d have "even (d - 3)" by simp
  then have "2 * ((d - 3) div 2) = d - 3" by (rule even_two_times_div_two)
  with d have dk: "d = 3 + int k * 2" unfolding k_def by linarith
  from d dk have "int k < (r - 1) div 2" by linarith
  then have "k < nat ((r - 1) div 2)" by linarith
  then have "3 + int k * 2 \<in> set (py_range 3 (r + 1) 2)"
    by (simp add: py_range_def)
  with dk show "d \<in> set (py_range 3 (r + 1) 2)" by simp
qed

lemma trial_loop_iff: "trial_loop n xs \<longleftrightarrow> (\<forall>i \<in> set xs. n mod i \<noteq> 0)"
  by (induction xs) auto

lemma is_prime_odd: "2 < n \<Longrightarrow> odd n \<Longrightarrow>
   is_prime fsqrt n \<longleftrightarrow> (\<forall>d \<in> {3 .. fsqrt n}. odd d \<longrightarrow> \<not> d dvd n)"
  by (auto simp: is_prime_def trial_loop_iff set_py_range_odd dvd_eq_mod_eq_0 odd_iff_mod_2_eq_one)

lemma isqrt_from_bounds:
  "0 \<le> r \<Longrightarrow> r * r \<le> n \<Longrightarrow>
   r \<le> isqrt_from n r \<and> isqrt_from n r * isqrt_from n r \<le> n
     \<and> n < (isqrt_from n r + 1) * (isqrt_from n r + 1)"
proof (induction n r rule: isqrt_from.induct)
  case (1 n r)
  show ?case
  proof (cases "(r + 1) * (r + 1) \<le> n")
    case True
    with 1 have "r + 1 \<le> isqrt_from n (r + 1) \<and> isqrt_from n (r + 1) * isqrt_from n (r + 1) \<le> n
     \<and> n < (isqrt_from n (r + 1) + 1) * (isqrt_from n (r + 1) + 1)" by simp
    moreover from True 1 have "isqrt_from n r = isqrt_from n (r + 1)"
      by (subst isqrt_from.simps) simp
    ultimately show ?thesis by simp
  next
    case False
    then have "isqrt_from n r = r" by (subst isqrt_from.simps) simp
    with False 1 show ?thesis by simp
  qed
qed

lemma floor_sqrt_unique:
  assumes "0 \<le> s" "s * s \<le> n" "n < (s + 1) * (s + 1)"
  shows "floor_sqrt n = s"
proof -
  have "(real_of_int s)\<^sup>2 \<le> real_of_int n"
    using assms(2) by (metis of_int_le_iff of_int_mult power2_eq_square)
  then have lo: "real_of_int s \<le> sqrt (real_of_int n)"
    by (rule real_le_rsqrt)
  have "real_of_int n < (real_of_int (s + 1))\<^sup>2"
    using assms(3) by (metis of_int_less_iff of_int_mult power2_eq_square)
  moreover have "0 \<le> real_of_int (s + 1)" using assms(1) by simp
  ultimately have hi: "sqrt (real_of_int n) < real_of_int (s + 1)"
    by (rule real_less_lsqrt[rotated -1])
  from lo hi show ?thesis unfolding floor_sqrt_def by linarith
qed

lemma isqrt_floor_sqrt: "0 \<le> n \<Longrightarrow> isqrt n = floor_sqrt n"
  using isqrt_from_bounds[of 0 n] floor_sqrt_unique[of "isqrt n" n]
  by (simp add: isqrt_def)



lemma floor_sqrt_bounds:
  assumes "0 \<le> n"
  shows "0 \<le> floor_sqrt n" "floor_sqrt n * floor_sqrt n \<le> n"
    "n < (floor_sqrt n + 1) * (floor_sqrt n + 1)"
  using isqrt_from_bounds [of 0 n] isqrt_floor_sqrt [OF assms] assms
  by (simp_all add: isqrt_def)

lemma le_floor_sqrt:
  assumes "0 \<le> m" "m * m \<le> n"
  shows "m \<le> floor_sqrt n"
proof (rule ccontr)
  assume "\<not> m \<le> floor_sqrt n"
  then have lt: "floor_sqrt n + 1 \<le> m" by simp
  from assms have n: "0 \<le> n" by (meson mult_nonneg_nonneg order_trans)
  from floor_sqrt_bounds(1) [OF n] lt
  have "(floor_sqrt n + 1) * (floor_sqrt n + 1) \<le> m * m"
    by (intro mult_mono) simp_all
  with floor_sqrt_bounds(3) [OF n] assms(2) show False by simp
qed

lemma floor_sqrt_less:
  assumes "2 \<le> n"
  shows "floor_sqrt n < n"
proof (rule ccontr)
  assume "\<not> floor_sqrt n < n"
  then have ge: "n \<le> floor_sqrt n" by simp
  from assms have "n * 2 \<le> n * n" by (intro mult_left_mono) simp_all
  also from ge assms have "n * n \<le> floor_sqrt n * floor_sqrt n"
    by (intro mult_mono) simp_all
  also from assms have "\<dots> \<le> n" by (intro floor_sqrt_bounds(2)) simp
  finally show False using assms by simp
qed

lemma odd_factor_below_root:
  assumes n: "2 < n" "odd n" and d: "2 \<le> d" "d < n" "d dvd n"
  shows "\<exists>m \<in> {3 .. floor_sqrt n}. odd m \<and> m dvd n"
proof -
  from d(3) obtain e where e: "n = d * e" by (auto elim: dvdE)
  have "0 < e"
  proof (rule ccontr)
    assume "\<not> 0 < e"
    with d(1) have "d * e \<le> 0" by (intro mult_nonneg_nonpos) simp_all
    with e n(1) show False by simp
  qed
  moreover have "e \<noteq> 1" using e d(2) by auto
  ultimately have e2: "2 \<le> e" by simp
  from e n(2) have od: "odd d" "odd e" by simp_all
  define m where "m = min d e"
  have m: "odd m" "2 \<le> m" "m dvd n" "m \<le> d" "m \<le> e"
    using od d e2 e by (auto simp: m_def min_def)
  from m(1) have "m \<noteq> 2" by auto
  with m(2) have m3: "3 \<le> m" by simp
  from m have "m * m \<le> d * e" by (intro mult_mono) simp_all
  with e m have "m \<le> floor_sqrt n" by (intro le_floor_sqrt) simp_all
  with m3 m show ?thesis by auto
qed

lemma trial_division_prime_iff: "trial_division_prime n \<longleftrightarrow> prime_int n"
proof (cases "2 < n \<and> odd n")
  case True
  then have n: "2 < n" "odd n" by simp_all
  show ?thesis
  proof
    assume t: "trial_division_prime n"
    with n have no: "\<forall>d \<in> {3 .. floor_sqrt n}. odd d \<longrightarrow> \<not> d dvd n"
      by (simp add: trial_division_prime_def)
    have "\<not> d dvd n" if "d \<in> {2 ..< n}" for d
    proof
      assume "d dvd n"
      with that n odd_factor_below_root [of n d] no show False by auto
    qed
    with n show "prime_int n" by (simp add: prime_int_def)
  next
    assume p: "prime_int n"
    have "\<not> d dvd n" if "d \<in> {3 .. floor_sqrt n}" for d
    proof -
      from that floor_sqrt_less [of n] n have "d \<in> {2 ..< n}" by simp
      with p show ?thesis by (simp add: prime_int_def)
    qed
    with n show "trial_division_prime n" by (simp add: trial_division_prime_def)
  qed
next
  case False
  show ?thesis
  proof (cases "n \<le> 2")
    case True
    then show ?thesis by (auto simp: trial_division_prime_def prime_int_def)
  next
    case False
    with \<open>\<not> (2 < n \<and> odd n)\<close> have e: "2 < n" "even n" by simp_all
    then have "2 \<in> {2 ..< n}" "2 dvd n" by simp_all
    then have "\<not> prime_int n" unfolding prime_int_def by blast
    with e show ?thesis by (simp add: trial_division_prime_def)
  qed
qed

text \<open>
  A bound that is too large does no harm: \<open>is_prime\<close> decides primality whenever the
  computed bound is at least \<open>floor (sqrt n)\<close> and below \<open>n\<close>.
\<close>

lemma is_prime_with_slack:
  assumes "floor_sqrt n \<le> fsqrt n" "fsqrt n < n"
  shows "is_prime fsqrt n = prime_int n"
proof (cases "2 < n \<and> odd n")
  case True
  then have n: "2 < n" "odd n" by simp_all
  show ?thesis
  proof
    assume "is_prime fsqrt n"
    with n have "\<forall>d \<in> {3 .. fsqrt n}. odd d \<longrightarrow> \<not> d dvd n" by (simp add: is_prime_odd)
    with assms(1) have "\<forall>d \<in> {3 .. floor_sqrt n}. odd d \<longrightarrow> \<not> d dvd n" by auto
    with n have "trial_division_prime n" by (simp add: trial_division_prime_def)
    then show "prime_int n" by (simp add: trial_division_prime_iff)
  next
    assume p: "prime_int n"
    have "\<not> d dvd n" if "d \<in> {3 .. fsqrt n}" for d
    proof -
      from that assms(2) have "d \<in> {2 ..< n}" by simp
      with p show ?thesis by (simp add: prime_int_def)
    qed
    with n show "is_prime fsqrt n" by (simp add: is_prime_odd)
  qed
next
  case False
  have "is_prime fsqrt n = trial_division_prime n"
    using False by (auto simp: is_prime_def trial_division_prime_def)
  then show ?thesis by (simp add: trial_division_prime_iff)
qed


subsection \<open>The bound in double precision\<close>























section \<open>Properties: the deadline\<close>

text \<open>
  Claim C4. A deadline is expired exactly when \<open>now - start_time \<ge> duration\<close>. At the
  start reading itself it is not expired when the duration is positive, it is expired at
  every reading from \<open>start_time + duration\<close> on, and with duration 0 it is expired at
  once. The four worker loops follow it in both directions: at a reading at which the
  deadline is expired the loop is left, and at a reading at which it is not the loop
  takes another iteration. So with a positive duration a loop entered at the start
  reading runs its body, and with duration 0 it does not.
\<close>

theorem budget_expiry:
  "(expired start_time duration now \<longleftrightarrow> now - start_time \<ge> duration)
   \<and> (0 < duration \<longrightarrow> \<not> expired start_time duration start_time)
   \<and> (start_time + duration \<le> now \<longrightarrow> expired start_time duration now)
   \<and> expired start_time 0 start_time
   \<and> (expired start_time duration now \<longrightarrow>
        cpu_loop fsqrt duration start_time (now # clock) c n = Some (c, n)
      \<and> hold_loop duration start_time (now # clock) blocks = Some blocks)
   \<and> (\<not> expired start_time duration now \<longrightarrow>
        cpu_loop fsqrt duration start_time (now # clock) c n
          = cpu_loop fsqrt duration start_time clock
              (if is_prime fsqrt n then c + 1 else c) (n + 1)
      \<and> hold_loop duration start_time (now # clock) blocks
          = hold_loop duration start_time clock (touch_blocks blocks))
   \<and> (cpc cl = CGuard \<longrightarrow>
        cpc (client_step duration cl (Clock now))
          = (if expired (cstart cl) duration now then CDone else CSocket))
   \<and> (spc sv = SGuard \<longrightarrow>
        spc (server_step duration sv (Clock now))
          = (if expired (sstart sv) duration now then SDone else SAccept))
   \<and> (0 < duration \<longrightarrow>
        cpu_loop fsqrt duration start_time (start_time # clock) c n
          = cpu_loop fsqrt duration start_time clock
              (if is_prime fsqrt n then c + 1 else c) (n + 1))
   \<and> cpu_loop fsqrt 0 start_time (start_time # clock) c n = Some (c, n)"
  by (auto simp: expired_def within_budget_def client_step_def server_step_def)

theorem budget_expiry_witness:
  "(expired 100 60 130 \<longleftrightarrow> (130::real) - 100 \<ge> 60)
   \<and> (0 < (60::real) \<and> \<not> expired 100 60 100)
   \<and> ((100::real) + 60 \<le> 160 \<and> expired 100 60 160)
   \<and> expired 100 0 100
   \<and> cpu_loop isqrt 60 100 [160] 0 2 = Some (0, 2)
   \<and> hold_loop 60 100 [160] [] = Some []
   \<and> \<not> expired 100 60 130
   \<and> cpu_loop isqrt 60 100 [130, 160] 0 2 = Some (1, 3)
   \<and> cpu_loop isqrt 60 100 [100, 160] 0 2 = Some (1, 3)
   \<and> cpu_loop isqrt 0 100 [100, 160] 0 2 = Some (0, 2)
   \<and> cpc (client_step 60 (client_init\<lparr>cpc := CGuard, cstart := 100\<rparr>) (Clock 130)) = CSocket
   \<and> cpc (client_step 60 (client_init\<lparr>cpc := CGuard, cstart := 100\<rparr>) (Clock 160)) = CDone
   \<and> spc (server_step 60 (server_init\<lparr>spc := SGuard, sstart := 100\<rparr>) (Clock 130)) = SAccept
   \<and> spc (server_step 60 (server_init\<lparr>spc := SGuard, sstart := 100\<rparr>) (Clock 160)) = SDone"
proof -
  note a = budget_expiry [of 100 60 130 isqrt "[160]" 0 2 "[]"
      "client_init\<lparr>cpc := CGuard, cstart := 100\<rparr>" "server_init\<lparr>spc := SGuard, sstart := 100\<rparr>"]
  note b = budget_expiry [of 100 60 160 isqrt "[]" 0 2 "[]"
      "client_init\<lparr>cpc := CGuard, cstart := 100\<rparr>" "server_init\<lparr>spc := SGuard, sstart := 100\<rparr>"]
  note c = budget_expiry [of 100 60 100 isqrt "[160]" 0 2 "[]"]
  have e: "\<not> expired 100 60 130" "expired 100 60 160" "expired 100 0 100" "\<not> expired 100 60 100"
    by (simp_all add: expired_def within_budget_def)
  have p: "is_prime isqrt 2" by (simp add: is_prime_def)
  have l: "cpu_loop isqrt 60 100 [160] (0 + 1) (2 + 1) = Some (1, 3)"
    using budget_expiry [of 100 60 160 isqrt "[]" 1 3 "[]"] e by simp
  from a b c e p l show ?thesis
    by (simp add: client_init_def server_init_def)
qed

section \<open>Properties: the CPU worker\<close>

lemma upt_0_Suc_map: "[0 ..< Suc k] = 0 # map Suc [0 ..< k]"
  by (simp add: upt_conv_Cons map_Suc_upt del: upt_Suc)

lemma cpu_loop_result:
  "cpu_loop fsqrt duration start_time clock c n =
     (if \<exists>now \<in> set clock. expired start_time duration now
      then Some (c + length (filter (is_prime fsqrt)
                   (map (\<lambda>i. n + int i)
                      [0 ..< length (takeWhile (within_budget start_time duration) clock)])),
                 n + int (length (takeWhile (within_budget start_time duration) clock)))
      else None)"
proof (induction clock arbitrary: c n)
  case Nil
  show ?case by simp
next
  case (Cons now clock)
  show ?case
  proof (cases "within_budget start_time duration now")
    case False
    then show ?thesis by (simp add: expired_def)
  next
    case True
    have m: "map (\<lambda>i. n + int i) [0 ..< Suc k] = n # map (\<lambda>i. (n + 1) + int i) [0 ..< k]" for k
      by (simp only: upt_0_Suc_map list.map map_map o_def) simp
    from True show ?thesis
      by (simp add: Cons.IH expired_def m del: upt_Suc)
  qed
qed

text \<open>
  Claim C8, as the code has it. The worker returns when a clock reading is past the
  deadline. Until then it has made one iteration per reading, testing the successive
  integers 2, 3, 4, 5, ... (every integer, the even ones too), and it returns the number
  of those that \<open>is_prime\<close> accepts; \<open>num\<close> ends at 2 plus the number of iterations. The
  result does not depend on \<open>worker_id\<close> or on any other worker.
\<close>

theorem cpu_worker_counts_successive_integers:
  "cpu_worker fsqrt clock worker_id duration start_time =
     (if \<exists>now \<in> set clock. expired start_time duration now
      then Some (length (filter (is_prime fsqrt)
                   (map (\<lambda>i. 2 + int i)
                      [0 ..< length (takeWhile (within_budget start_time duration) clock)])))
      else None)
   \<and> cpu_loop fsqrt duration start_time clock 0 2 =
     (if \<exists>now \<in> set clock. expired start_time duration now
      then Some (length (filter (is_prime fsqrt)
                   (map (\<lambda>i. 2 + int i)
                      [0 ..< length (takeWhile (within_budget start_time duration) clock)])),
                 2 + int (length (takeWhile (within_budget start_time duration) clock)))
      else None)"
  by (simp add: cpu_worker_def cpu_loop_result)

theorem cpu_worker_counts_successive_integers_witness:
  "cpu_worker isqrt [0, 0, 0, 1] 5 1 0 = Some 2
   \<and> cpu_loop isqrt 1 0 [0, 0, 0, 1] 0 2 = Some (2, 5)"
  using cpu_worker_counts_successive_integers [of isqrt "[0, 0, 0, 1]" 5 1 0]
  by (simp add: within_budget_def expired_def is_prime_def py_range_def isqrt_def)

text \<open>
  Claim C8 as stated fails: with three iterations the code tests 2, 3 and 4 and counts two
  primes, where 2 followed by the odd integers 3 and 5 would give three.
\<close>

theorem cpu_worker_tests_even_numbers:
  "cpu_worker isqrt [0, 0, 0, 1] 0 1 0 = Some 2
   \<and> cpu_worker_odd_spec isqrt [0, 0, 0, 1] 1 0 = Some 3"
  by (simp add: cpu_worker_def cpu_worker_odd_spec_def within_budget_def expired_def
      odd_candidates_def is_prime_def py_range_def isqrt_def upt_rec)

section \<open>Properties: the byte pattern of a block\<close>

lemma write_pattern_snoc:
  "write_pattern i b (js @ [j]) = (write_pattern i b js)[nat j := nat ((int i + j) mod 256)]"
  by (simp add: write_pattern_def)

lemma length_write_pattern: "length (write_pattern i b js) = length b"
  by (induction js rule: rev_induct) (simp_all add: write_pattern_snoc, simp add: write_pattern_def)

lemma write_pattern_nth:
  assumes "\<forall>j \<in> set js. nat ((int i + j) mod 256) = c" and "p < length b"
  shows "write_pattern i b js ! p = (if p \<in> nat ` set js then c else b ! p)"
  using assms
proof (induction js rule: rev_induct)
  case Nil
  show ?case by (simp add: write_pattern_def)
next
  case (snoc j js)
  then have ih: "write_pattern i b js ! p = (if p \<in> nat ` set js then c else b ! p)"
    by simp
  from snoc.prems have c: "nat ((int i + j) mod 256) = c" by simp
  show ?case
  proof (cases "p = nat j")
    case True
    with snoc.prems(2) show ?thesis
      by (simp add: write_pattern_snoc length_write_pattern c)
  next
    case False
    then show ?thesis
      by (auto simp: write_pattern_snoc ih)
  qed
qed

lemma stride_offsets:
  "py_range 0 (int chunk_size) 4096 = map (\<lambda>k. int k * 4096) [0 ..< 256]"
  by (simp add: py_range_def chunk_size_def)

lemma stride_offsets_nat:
  "nat ` set (py_range 0 (int chunk_size) 4096) = {p. p < chunk_size \<and> 4096 dvd p}"
proof (intro set_eqI iffI)
  fix p assume "p \<in> nat ` set (py_range 0 (int chunk_size) 4096)"
  then obtain k where "k < 256" "p = k * 4096"
    by (auto simp: stride_offsets nat_mult_distrib)
  then show "p \<in> {p. p < chunk_size \<and> 4096 dvd p}"
    by (simp add: chunk_size_def)
next
  fix p assume "p \<in> {p. p < chunk_size \<and> 4096 dvd p}"
  then obtain k where k: "p = 4096 * k" and "p < chunk_size" by (auto elim: dvdE)
  then have "k < 256" by (simp add: chunk_size_def)
  then have "int k * 4096 \<in> set (py_range 0 (int chunk_size) 4096)"
    by (simp add: stride_offsets)
  moreover have "nat (int k * 4096) = p" using k by (simp add: nat_mult_distrib)
  ultimately show "p \<in> nat ` set (py_range 0 (int chunk_size) 4096)" by force
qed

lemma stride_value:
  assumes "j \<in> set (py_range 0 (int chunk_size) 4096)"
  shows "(int i + j) mod 256 = int i mod 256" "4096 dvd j" "0 \<le> j" "j < int chunk_size"
proof -
  from assms obtain k where k: "k < 256" "j = int k * 4096"
    by (auto simp: stride_offsets)
  have "j = 256 * (int k * 16)" using k by simp
  then show "(int i + j) mod 256 = int i mod 256" by (metis mod_mult_self2)
  show "4096 dvd j" using k by simp
  show "0 \<le> j" using k by simp
  show "j < int chunk_size" using k by (simp add: chunk_size_def)
qed

lemma length_fill_block: "length (fill_block i) = chunk_size"
  by (simp add: fill_block_def length_write_pattern)

text \<open>
  Claim C9. Every offset the write loop visits is a multiple of 4096, and the value
  written there, \<open>(i + offset) mod 256\<close>, is \<open>i mod 256\<close>. So after the loop the block of
  chunk \<open>i\<close> has \<open>chunk_size\<close> bytes, holds \<open>i mod 256\<close> at every multiple of 4096 and 0
  everywhere else.
\<close>

theorem fill_block_pattern:
  "(\<forall>j \<in> set (py_range 0 (int chunk_size) 4096).
      4096 dvd j \<and> (int i + j) mod 256 = int i mod 256)
   \<and> length (fill_block i) = chunk_size
   \<and> (p < chunk_size \<longrightarrow> fill_block i ! p = (if 4096 dvd p then i mod 256 else 0))"
proof (intro conjI impI ballI)
  fix j assume "j \<in> set (py_range 0 (int chunk_size) 4096)"
  then show "4096 dvd j" and "(int i + j) mod 256 = int i mod 256"
    by (rule stride_value)+
next
  show "length (fill_block i) = chunk_size" by (rule length_fill_block)
next
  assume p: "p < chunk_size"
  have "\<forall>j \<in> set (py_range 0 (int chunk_size) 4096). nat ((int i + j) mod 256) = i mod 256"
    by (simp add: stride_value(1) nat_mod_distrib flip: zmod_int)
  then have "fill_block i ! p =
      (if p \<in> nat ` set (py_range 0 (int chunk_size) 4096) then i mod 256
       else replicate chunk_size 0 ! p)"
    unfolding fill_block_def using p by (intro write_pattern_nth) simp_all
  with p show "fill_block i ! p = (if 4096 dvd p then i mod 256 else 0)"
    by (simp add: stride_offsets_nat)
qed

theorem fill_block_pattern_witness:
  "8192 \<in> set (py_range 0 (int chunk_size) 4096) \<and> (int 300 + 8192) mod 256 = (44::int)
   \<and> length (fill_block 300) = 1048576
   \<and> 8192 < chunk_size \<and> fill_block 300 ! 8192 = 44
   \<and> 8193 < chunk_size \<and> fill_block 300 ! 8193 = 0"
proof -
  have "(2::nat) \<in> set [0 ..< 256]" by simp
  then have "int 2 * 4096 \<in> (\<lambda>k. int k * 4096) ` set [0 ..< 256]" by (rule imageI)
  then have "8192 \<in> set (py_range 0 (int chunk_size) 4096)"
    unfolding stride_offsets set_map by simp
  with fill_block_pattern [of 300 8192] fill_block_pattern [of 300 8193]
  show ?thesis by (simp add: chunk_size_def)
qed

section \<open>Properties: the RAM worker\<close>

lemma join_all_length: "join_all rs = Some xs \<Longrightarrow> length xs = length rs"
  by (induction rs arbitrary: xs rule: join_all.induct) (auto split: option.splits)

lemma join_all_Some: "(\<forall>r \<in> set rs. r \<noteq> None) \<Longrightarrow> \<exists>xs. join_all rs = Some xs"
  by (induction rs rule: join_all.induct) auto

lemma join_all_map_Some: "join_all rs = Some xs \<Longrightarrow> rs = map Some xs"
  by (induction rs arbitrary: xs rule: join_all.induct) (auto split: option.splits)

lemma alloc_loop_fst:
  "fst (alloc_loop ok w idxs s) = (if \<forall>i \<in> set idxs. ok i then None else Some MemoryError)"
  by (induction idxs arbitrary: s) (auto simp: Let_def)

lemma alloc_loop_blocks:
  "memory_blocks (snd (alloc_loop ok w idxs s)) = memory_blocks s @ map fill_block (takeWhile ok idxs)"
  by (induction idxs arbitrary: s) (auto simp: Let_def)


lemma alloc_loop_out:
  "\<exists>es. out (snd (alloc_loop ok w idxs s)) = out s @ es \<and> (\<forall>e \<in> set es. \<exists>k. e = Status (Allocated w k) Info)"
proof (induction idxs arbitrary: s)
  case Nil
  show ?case by simp
next
  case (Cons i idxs)
  show ?case
  proof (cases "ok i")
    case False
    then show ?thesis by simp
  next
    case True
    define s2 where "s2 = (if (i + 1) mod 100 = 0
                  then s\<lparr>memory_blocks := memory_blocks s @ [fill_block i],
                         out := print_status (Allocated w (i + 1)) Info (out s)\<rparr>
                  else s\<lparr>memory_blocks := memory_blocks s @ [fill_block i]\<rparr>)"
    from True have step: "alloc_loop ok w (i # idxs) s = alloc_loop ok w idxs s2"
      by (simp add: Let_def s2_def)
    obtain es where es: "out (snd (alloc_loop ok w idxs s2)) = out s2 @ es"
       "\<forall>e \<in> set es. \<exists>k. e = Status (Allocated w k) Info"
      using Cons.IH [of s2] by blast
    have "\<exists>es0. out s2 = out s @ es0 \<and> (\<forall>e \<in> set es0. \<exists>k. e = Status (Allocated w k) Info)"
      by (simp add: s2_def print_status_def)
    then obtain es0 where es0: "out s2 = out s @ es0"
       "\<forall>e \<in> set es0. \<exists>k. e = Status (Allocated w k) Info" by blast
    from es es0 have "out (snd (alloc_loop ok w idxs s2)) = out s @ (es0 @ es)"
       "\<forall>e \<in> set (es0 @ es). \<exists>k. e = Status (Allocated w k) Info" by auto
    then show ?thesis unfolding step by blast
  qed
qed

lemma length_touch: "length (touch b) = length b"
  by (simp add: touch_def split: list.splits)

lemma map_length_touch_blocks: "map length (touch_blocks bs) = map length bs"
proof -
  have "map length (touch_blocks bs) = map (length \<circ> snd) (zip [0 ..< length bs] bs)"
    by (auto simp: touch_blocks_def length_touch)
  also have "\<dots> = map length (map snd (zip [0 ..< length bs] bs))"
    by (simp only: map_map)
  also have "map snd (zip [0 ..< length bs] bs) = bs"
    by (rule map_snd_zip) simp
  finally show ?thesis .
qed

lemma hold_loop_lengths:
  "hold_loop d st clock bs = Some bs' \<Longrightarrow> map length bs' = map length bs"
proof (induction clock arbitrary: bs)
  case Nil
  then show ?case by simp
next
  case (Cons now clock)
  then show ?case
    by (cases "within_budget st d now") (auto simp: map_length_touch_blocks)
qed

lemma hold_loop_None:
  "hold_loop d st clock bs = None \<longleftrightarrow> \<not> (\<exists>now \<in> set clock. expired st d now)"
  by (induction clock arbitrary: bs) (auto simp: expired_def)

lemma first_failure:
  fixes ok :: "nat \<Rightarrow> bool" and n :: nat
  defines "k \<equiv> length (takeWhile ok [0 ..< n])"
  shows "k \<le> n" and "takeWhile ok [0 ..< n] = [0 ..< k]" and "\<forall>i < k. ok i"
    and "(\<exists>i < n. \<not> ok i) \<Longrightarrow> k < n \<and> \<not> ok k"
proof -
  have "k \<le> length [0 ..< n]" unfolding k_def by (rule length_takeWhile_le)
  then show kn: "k \<le> n" by simp
  have "takeWhile ok [0 ..< n] = take k [0 ..< n]"
    unfolding k_def by (rule takeWhile_eq_take)
  with kn show tk: "takeWhile ok [0 ..< n] = [0 ..< k]" by (simp add: take_upt)
  have "\<forall>x \<in> set (takeWhile ok [0 ..< n]). ok x" by (auto dest: set_takeWhileD)
  then show all: "\<forall>i < k. ok i" unfolding tk by simp
  assume "\<exists>i < n. \<not> ok i"
  with all have "k \<noteq> n" by auto
  with kn have lt: "k < n" by simp
  then have "k < length [0 ..< n]" by simp
  then have "\<not> ok ([0 ..< n] ! k)" unfolding k_def by (rule nth_length_takeWhile)
  with lt show "k < n \<and> \<not> ok k" by simp
qed

lemma alloc_loop_state:
  fixes ok w mb
  defines "s0 \<equiv> \<lparr>memory_blocks = [], out = [Status (RamStarted w mb) Success]\<rparr>"
  defines "s1 \<equiv> snd (alloc_loop ok w (range1 mb) s0)"
  shows "memory_blocks s1 = map fill_block [0 ..< length (takeWhile ok [0 ..< nat mb])]"
    and "\<exists>es. out s1 = Status (RamStarted w mb) Success # es
              \<and> (\<forall>e \<in> set es. \<exists>k. e = Status (Allocated w k) Info)"
proof -
  show "memory_blocks s1 = map fill_block [0 ..< length (takeWhile ok [0 ..< nat mb])]"
    unfolding s1_def alloc_loop_blocks range1_def
    by (simp add: s0_def first_failure(2) [symmetric])
  obtain es where "out s1 = out s0 @ es" "\<forall>e \<in> set es. \<exists>k. e = Status (Allocated w k) Info"
    unfolding s1_def using alloc_loop_out by blast
  then show "\<exists>es. out s1 = Status (RamStarted w mb) Success # es
              \<and> (\<forall>e \<in> set es. \<exists>k. e = Status (Allocated w k) Info)"
    by (simp add: s0_def print_status_def)
qed

lemma ram_worker_cases:
  fixes ok w mb
  defines "s0 \<equiv> \<lparr>memory_blocks = [], out = [Status (RamStarted w mb) Success]\<rparr>"
  defines "s1 \<equiv> snd (alloc_loop ok w (range1 mb) s0)"
  shows "ram_worker (st # clock) ok w mb d =
    (if \<forall>i < nat mb. ok i then
       (case hold_loop d st clock (memory_blocks s1) of
          None \<Rightarrow> None
        | Some bs \<Rightarrow>
            Some (s1\<lparr>memory_blocks := bs,
                     out := out s1 @ [Status (AllocSuccess w mb) Success,
                                      Status (RamFinished w) Success]\<rparr>))
     else Some (s1\<lparr>out := out s1 @ [Status (AllocFailed w) Error]\<rparr>))"
proof -
  obtain e where e: "alloc_loop ok w (range1 mb) s0 = (e, s1)"
    unfolding s1_def by (cases "alloc_loop ok w (range1 mb) s0") simp
  have "e = fst (alloc_loop ok w (range1 mb) s0)" using e by simp
  then have e': "e = (if \<forall>i < nat mb. ok i then None else Some MemoryError)"
    by (simp add: alloc_loop_fst range1_def)
  show ?thesis
  proof (cases "\<forall>i < nat mb. ok i")
    case True
    with e' e have "alloc_loop ok w (range1 mb) s0 = (None, s1)" by simp
    with True show ?thesis
      unfolding ram_worker_def
      by (auto simp: s0_def [symmetric] Let_def print_status_def split: option.splits)
  next
    case False
    with e' e have "alloc_loop ok w (range1 mb) s0 = (Some MemoryError, s1)" by simp
    with False show ?thesis
      unfolding ram_worker_def
      by (auto simp: s0_def [symmetric] Let_def print_status_def)
  qed
qed

lemma bytes_allocated_blocks:
  "map length (memory_blocks r) = replicate k chunk_size \<Longrightarrow> bytes_allocated r = k * chunk_size"
  by (simp add: bytes_allocated_def sum_list_replicate)

lemma map_length_fill: "map length (map fill_block xs) = replicate (length xs) chunk_size"
  by (induction xs) (simp_all add: length_fill_block)

lemma ram_worker_failure:
  assumes "\<exists>i < nat mb. \<not> ok i" and r: "ram_worker (st # clock) ok w mb d = Some r"
  shows "memory_blocks r = map fill_block [0 ..< length (takeWhile ok [0 ..< nat mb])]"
    and "last (out r) = Status (AllocFailed w) Error"
    and "Status (AllocSuccess w mb) Success \<notin> set (out r)"
    and "Status (RamFinished w) Success \<notin> set (out r)"
    and "hd (out r) = Status (RamStarted w mb) Success"
proof -
  define s1 where "s1 = snd (alloc_loop ok w (range1 mb)
      \<lparr>memory_blocks = [], out = [Status (RamStarted w mb) Success]\<rparr>)"
  from assms(1) have "\<not> (\<forall>i < nat mb. ok i)" by blast
  with r have req: "r = s1\<lparr>out := out s1 @ [Status (AllocFailed w) Error]\<rparr>"
    unfolding ram_worker_cases s1_def by simp
  obtain es where es: "out s1 = Status (RamStarted w mb) Success # es"
     "\<forall>e \<in> set es. \<exists>k. e = Status (Allocated w k) Info"
    unfolding s1_def using alloc_loop_state(2) by blast
  show "memory_blocks r = map fill_block [0 ..< length (takeWhile ok [0 ..< nat mb])]"
    unfolding req s1_def using alloc_loop_state(1) by simp
  show "last (out r) = Status (AllocFailed w) Error" unfolding req by simp
  show "Status (AllocSuccess w mb) Success \<notin> set (out r)" unfolding req using es by auto
  show "Status (RamFinished w) Success \<notin> set (out r)" unfolding req using es by auto
  show "hd (out r) = Status (RamStarted w mb) Success" unfolding req using es by simp
qed

lemma ram_worker_success:
  assumes "\<forall>i < nat mb. ok i" and r: "ram_worker (st # clock) ok w mb d = Some r"
  shows "map length (memory_blocks r) = replicate (nat mb) chunk_size"
    and "Status (AllocSuccess w mb) Success \<in> set (out r)"
    and "Status (AllocFailed w) Error \<notin> set (out r)"
    and "last (out r) = Status (RamFinished w) Success"
    and "hd (out r) = Status (RamStarted w mb) Success"
proof -
  define s1 where "s1 = snd (alloc_loop ok w (range1 mb)
      \<lparr>memory_blocks = [], out = [Status (RamStarted w mb) Success]\<rparr>)"
  from assms obtain bs where bs: "hold_loop d st clock (memory_blocks s1) = Some bs"
    and req: "r = s1\<lparr>memory_blocks := bs,
                     out := out s1 @ [Status (AllocSuccess w mb) Success,
                                      Status (RamFinished w) Success]\<rparr>"
    unfolding ram_worker_cases s1_def by (auto split: option.splits)
  obtain es where es: "out s1 = Status (RamStarted w mb) Success # es"
     "\<forall>e \<in> set es. \<exists>k. e = Status (Allocated w k) Info"
    unfolding s1_def using alloc_loop_state(2) by blast
  from assms(1) have "length (takeWhile ok [0 ..< nat mb]) = nat mb"
    by (simp add: takeWhile_eq_all_conv [THEN iffD2])
  then have mb: "memory_blocks s1 = map fill_block [0 ..< nat mb]"
    unfolding s1_def using alloc_loop_state(1) [of ok w mb] by (simp only:)
  have "map length bs = map length (memory_blocks s1)"
    by (rule hold_loop_lengths [OF bs])
  also have "\<dots> = map length (map fill_block [0 ..< nat mb])" by (simp only: mb)
  also have "\<dots> = replicate (length [0 ..< nat mb]) chunk_size" by (rule map_length_fill)
  finally have "map length bs = replicate (nat mb) chunk_size" by simp
  then show "map length (memory_blocks r) = replicate (nat mb) chunk_size"
    unfolding req by simp
  show "Status (AllocSuccess w mb) Success \<in> set (out r)" unfolding req by simp
  show "Status (AllocFailed w) Error \<notin> set (out r)" unfolding req using es by auto
  show "last (out r) = Status (RamFinished w) Success" unfolding req by simp
  show "hd (out r) = Status (RamStarted w mb) Success" unfolding req using es by simp
qed

lemma ram_worker_returns:
  "(\<exists>r. ram_worker clock ok w mb d = Some r) \<longleftrightarrow>
     clock \<noteq> [] \<and> ((\<exists>i < nat mb. \<not> ok i) \<or> (\<exists>now \<in> set (tl clock). expired (hd clock) d now))"
proof (cases clock)
  case Nil
  then show ?thesis by (simp add: ram_worker_def)
next
  case (Cons st clock')
  show ?thesis
  proof (cases "\<forall>i < nat mb. ok i")
    case True
    then have "(\<exists>r. ram_worker clock ok w mb d = Some r) \<longleftrightarrow>
        hold_loop d st clock' (memory_blocks (snd (alloc_loop ok w (range1 mb)
          \<lparr>memory_blocks = [], out = [Status (RamStarted w mb) Success]\<rparr>))) \<noteq> None"
      unfolding Cons ram_worker_cases by (auto split: option.splits)
    with True show ?thesis
      unfolding hold_loop_None Cons by auto
  next
    case False
    then show ?thesis unfolding Cons ram_worker_cases by auto
  qed
qed

lemma ram_worker_started:
  assumes "ram_worker clock ok w mb d = Some r"
  shows "hd (out r) = Status (RamStarted w mb) Success"
proof -
  from assms obtain st clock' where c: "clock = st # clock'"
    by (cases clock) (simp_all add: ram_worker_def)
  show ?thesis
  proof (cases "\<forall>i < nat mb. ok i")
    case True
    then show ?thesis using assms unfolding c by (rule ram_worker_success(5))
  next
    case False
    then have "\<exists>i < nat mb. \<not> ok i" by blast
    then show ?thesis using assms unfolding c by (rule ram_worker_failure(5))
  qed
qed

text \<open>
  Claim C3, as the code has it, for a requested size \<open>size_mb \<ge> 0\<close>. The worker returns
  when an allocation fails or when a clock reading of the hold loop is past the deadline.
  When it returns it never holds more than \<open>size_mb\<close> MiB. When every allocation succeeds
  it holds exactly \<open>size_mb\<close> blocks of 1 MiB and has printed the success line and no
  failure line. When an allocation fails it has left the loop at the first failing
  chunk: it holds the blocks before that chunk only, fewer than \<open>size_mb\<close>, the failure
  line is the last it prints, and the success and finish lines are not printed.
\<close>

theorem ram_worker_allocation:
  "0 \<le> size_mb \<Longrightarrow>
   (clock \<noteq> [] \<and> ((\<exists>i < nat size_mb. \<not> alloc_ok i)
        \<or> (\<exists>now \<in> set (tl clock). expired (hd clock) duration now))
      \<longrightarrow> (\<exists>r. ram_worker clock alloc_ok worker_id size_mb duration = Some r))
   \<and> (ram_worker clock alloc_ok worker_id size_mb duration = Some r \<longrightarrow>
        int (bytes_allocated r) \<le> size_mb * int chunk_size
      \<and> ((\<forall>i < nat size_mb. alloc_ok i) \<longrightarrow>
            int (bytes_allocated r) = size_mb * int chunk_size
          \<and> Status (AllocSuccess worker_id size_mb) Success \<in> set (out r)
          \<and> Status (AllocFailed worker_id) Error \<notin> set (out r))
      \<and> ((\<exists>i < nat size_mb. \<not> alloc_ok i) \<longrightarrow>
            last (out r) = Status (AllocFailed worker_id) Error
          \<and> Status (AllocSuccess worker_id size_mb) Success \<notin> set (out r)
          \<and> Status (RamFinished worker_id) Success \<notin> set (out r)
          \<and> bytes_allocated r = length (memory_blocks r) * chunk_size
          \<and> length (memory_blocks r) < nat size_mb
          \<and> \<not> alloc_ok (length (memory_blocks r))
          \<and> (\<forall>i < length (memory_blocks r). alloc_ok i)))"
proof (intro conjI impI)
  assume "clock \<noteq> [] \<and> ((\<exists>i < nat size_mb. \<not> alloc_ok i)
        \<or> (\<exists>now \<in> set (tl clock). expired (hd clock) duration now))"
  then show "\<exists>r. ram_worker clock alloc_ok worker_id size_mb duration = Some r"
    using ram_worker_returns [of clock alloc_ok worker_id size_mb duration] by blast
next
  assume nn: "0 \<le> size_mb" and r: "ram_worker clock alloc_ok worker_id size_mb duration = Some r"
  from r obtain st clock' where c: "clock = st # clock'"
    by (cases clock) (simp_all add: ram_worker_def)
  define k where "k = length (takeWhile alloc_ok [0 ..< nat size_mb])"
  have kn: "k \<le> nat size_mb" unfolding k_def by (rule first_failure(1))
  show "int (bytes_allocated r) \<le> size_mb * int chunk_size"
  proof (cases "\<forall>i < nat size_mb. alloc_ok i")
    case True
    from ram_worker_success(1) [OF True r [unfolded c]]
    have "bytes_allocated r = nat size_mb * chunk_size" by (rule bytes_allocated_blocks)
    with nn show ?thesis by simp
  next
    case False
    then have "\<exists>i < nat size_mb. \<not> alloc_ok i" by blast
    from ram_worker_failure(1) [OF this r [unfolded c]]
    have "map length (memory_blocks r) = replicate k chunk_size"
      by (simp only: map_length_fill k_def) simp
    then have "bytes_allocated r = k * chunk_size" by (rule bytes_allocated_blocks)
    with kn have "bytes_allocated r \<le> nat size_mb * chunk_size" by simp
    then have "int (bytes_allocated r) \<le> int (nat size_mb * chunk_size)" by (simp only: of_nat_le_iff)
    with nn show ?thesis by simp
  qed
  {
    assume ok: "\<forall>i < nat size_mb. alloc_ok i"
    from ram_worker_success(1) [OF ok r [unfolded c]]
    have "bytes_allocated r = nat size_mb * chunk_size" by (rule bytes_allocated_blocks)
    with nn show "int (bytes_allocated r) = size_mb * int chunk_size" by simp
    show "Status (AllocSuccess worker_id size_mb) Success \<in> set (out r)"
      using ok r [unfolded c] by (rule ram_worker_success(2))
    show "Status (AllocFailed worker_id) Error \<notin> set (out r)"
      using ok r [unfolded c] by (rule ram_worker_success(3))
  }
  {
    assume bad: "\<exists>i < nat size_mb. \<not> alloc_ok i"
    have mb: "memory_blocks r = map fill_block [0 ..< k]"
      unfolding k_def using bad r [unfolded c] by (rule ram_worker_failure(1))
    then have len: "length (memory_blocks r) = k" by simp
    show "last (out r) = Status (AllocFailed worker_id) Error"
      using bad r [unfolded c] by (rule ram_worker_failure(2))
    show "Status (AllocSuccess worker_id size_mb) Success \<notin> set (out r)"
      using bad r [unfolded c] by (rule ram_worker_failure(3))
    show "Status (RamFinished worker_id) Success \<notin> set (out r)"
      using bad r [unfolded c] by (rule ram_worker_failure(4))
    from mb have "map length (memory_blocks r) = replicate k chunk_size"
      by (simp only: map_length_fill) simp
    then show "bytes_allocated r = length (memory_blocks r) * chunk_size"
      unfolding len by (rule bytes_allocated_blocks)
    from first_failure(4) [OF bad] show "length (memory_blocks r) < nat size_mb"
      unfolding len k_def by simp
    from first_failure(4) [OF bad] show "\<not> alloc_ok (length (memory_blocks r))"
      unfolding len k_def by simp
    from first_failure(3) [of alloc_ok "nat size_mb"]
    show "\<forall>i < length (memory_blocks r). alloc_ok i"
      unfolding len k_def by simp
  }
qed

theorem ram_worker_allocation_witness:
  "(\<exists>r. ram_worker [0, 5] (\<lambda>i. i < 2) 7 3 1 = Some r
        \<and> length (memory_blocks r) = 2 \<and> bytes_allocated r = 2 * chunk_size
        \<and> int (bytes_allocated r) \<le> 3 * int chunk_size
        \<and> last (out r) = Status (AllocFailed 7) Error)
   \<and> (\<exists>r. ram_worker [0, 5] (\<lambda>i. True) 7 3 1 = Some r
        \<and> int (bytes_allocated r) = 3 * int chunk_size
        \<and> Status (AllocSuccess 7 3) Success \<in> set (out r))"
proof (intro conjI)
  have nn: "(0::int) \<le> 3" by simp
  have bad: "\<exists>i < nat 3. \<not> (\<lambda>i::nat. i < 2) i" by (intro exI [of _ 2]) simp
  have pre: "[0, 5] \<noteq> [] \<and> ((\<exists>i < nat 3. \<not> (\<lambda>i::nat. i < 2) i)
        \<or> (\<exists>now \<in> set (tl [0, 5]). expired (hd [0, 5]) 1 now))"
    using bad by simp
  from ram_worker_allocation [OF nn, of "[0, 5]" "\<lambda>i. i < 2" 1 7, THEN conjunct1] pre
  obtain r where r: "ram_worker [0, 5] (\<lambda>i. i < 2) 7 3 1 = Some r" by blast
  note facts = ram_worker_allocation [OF nn, of "[0, 5]" "\<lambda>i. i < 2" 1 7 r, THEN conjunct2,
      rule_format, OF r]
  from facts bad have f: "last (out r) = Status (AllocFailed 7) Error"
     "bytes_allocated r = length (memory_blocks r) * chunk_size"
     "\<not> (length (memory_blocks r) < 2)"
     "\<forall>i < length (memory_blocks r). i < 2"
     "int (bytes_allocated r) \<le> 3 * int chunk_size"
    by blast+
  from f(3,4) have "length (memory_blocks r) = 2"
    by (metis less_antisym less_Suc_eq_le not_less numeral_2_eq_2 lessI le_less_linear)
  with f r show "\<exists>r. ram_worker [0, 5] (\<lambda>i. i < 2) 7 3 1 = Some r
        \<and> length (memory_blocks r) = 2 \<and> bytes_allocated r = 2 * chunk_size
        \<and> int (bytes_allocated r) \<le> 3 * int chunk_size
        \<and> last (out r) = Status (AllocFailed 7) Error"
    by simp
next
  have nn: "(0::int) \<le> 3" by simp
  have pre: "[0, 5] \<noteq> [] \<and> ((\<exists>i < nat 3. \<not> (\<lambda>i::nat. True) i)
        \<or> (\<exists>now \<in> set (tl [0, 5]). expired (hd [0, 5]) 1 now))"
    by (simp add: expired_def within_budget_def)
  from ram_worker_allocation [OF nn, of "[0, 5]" "\<lambda>i. True" 1 7, THEN conjunct1] pre
  obtain r where r: "ram_worker [0, 5] (\<lambda>i. True) 7 3 1 = Some r" by blast
  note facts = ram_worker_allocation [OF nn, of "[0, 5]" "\<lambda>i. True" 1 7 r, THEN conjunct2,
      rule_format, OF r]
  from facts have "int (bytes_allocated r) = 3 * int chunk_size"
     "Status (AllocSuccess 7 3) Success \<in> set (out r)"
    by simp_all
  with r show "\<exists>r. ram_worker [0, 5] (\<lambda>i. True) 7 3 1 = Some r
        \<and> int (bytes_allocated r) = 3 * int chunk_size
        \<and> Status (AllocSuccess 7 3) Success \<in> set (out r)"
    by blast
qed

text \<open>
  Claim C3 as stated fails for a negative size: the worker asked for \<open>- 1\<close> MB allocates
  nothing, which is neither \<open>- 1\<close> MiB nor at most \<open>- 1\<close> MiB, and it prints the success
  line, not a failure.
\<close>

theorem ram_worker_negative_size:
  "map_option bytes_allocated (ram_worker [0, 60] (always True) 0 (- 1) 60) = Some 0
   \<and> \<not> (int 0 \<le> (- 1) * int chunk_size)
   \<and> int 0 \<noteq> (- 1) * int chunk_size
   \<and> map_option out (ram_worker [0, 60] (always True) 0 (- 1) 60)
       = Some [Status (RamStarted 0 (- 1)) Success, Status (AllocSuccess 0 (- 1)) Success,
               Status (RamFinished 0) Success]"
  by (simp add: ram_worker_def range1_def within_budget_def bytes_allocated_def
      print_status_def chunk_size_def)

section \<open>Properties: the worker pools\<close>

lemma cpu_worker_None:
  "cpu_worker fsqrt clock w d st = None \<longleftrightarrow> \<not> (\<exists>now \<in> set clock. expired st d now)"
  by (simp add: cpu_worker_def cpu_loop_result)

lemma join_all_map:
  assumes "\<forall>x \<in> set xs. f x \<noteq> None"
  shows "\<exists>ys. join_all (map f xs) = Some ys \<and> length ys = length xs
           \<and> (\<forall>i < length xs. f (xs ! i) = Some (ys ! i))"
proof -
  from assms have "\<forall>r \<in> set (map f xs). r \<noteq> None" by simp
  then obtain ys where ys: "join_all (map f xs) = Some ys" using join_all_Some by blast
  then have m: "map f xs = map Some ys" by (rule join_all_map_Some)
  then have len: "length ys = length xs" by (metis length_map)
  have "\<forall>i < length xs. f (xs ! i) = Some (ys ! i)"
  proof (intro allI impI)
    fix i assume i: "i < length xs"
    then have "map f xs ! i = f (xs ! i)" by simp
    moreover from i len have "map Some ys ! i = Some (ys ! i)" by simp
    ultimately show "f (xs ! i) = Some (ys ! i)" using m by simp
  qed
  with ys len show ?thesis by blast
qed

lemma join_all_map_result:
  assumes "join_all (map f xs) = Some ys"
  shows "length ys = length xs \<and> (\<forall>i < length xs. f (xs ! i) = Some (ys ! i))"
proof -
  from assms have m: "map f xs = map Some ys" by (rule join_all_map_Some)
  then have len: "length ys = length xs" by (metis length_map)
  have "\<forall>i < length xs. f (xs ! i) = Some (ys ! i)"
  proof (intro allI impI)
    fix i assume i: "i < length xs"
    then have "map f xs ! i = f (xs ! i)" by simp
    moreover from i len have "map Some ys ! i = Some (ys ! i)" by simp
    ultimately show "f (xs ! i) = Some (ys ! i)" using m by simp
  qed
  with len show ?thesis by blast
qed

lemma run_ram_workers_eq:
  "run_ram_workers clocks alloc_ok mb d threads =
     join_all (map (\<lambda>i. ram_worker (clocks i) (alloc_ok i) i mb d) [0 ..< nat threads])"
  by (simp add: run_ram_workers_def thread_args_def range1_def o_def)

lemma run_ram_workers_result:
  assumes "run_ram_workers clocks alloc_ok mb d threads = Some ws"
  shows "length ws = nat threads"
    and "\<forall>i < nat threads. ram_worker (clocks i) (alloc_ok i) i mb d = Some (ws ! i)"
  using join_all_map_result [OF assms [unfolded run_ram_workers_eq]] by simp_all

lemma run_ram_workers_returns:
  assumes "\<forall>i < nat threads. ram_worker (clocks i) (alloc_ok i) i mb d \<noteq> None"
  shows "\<exists>ws. run_ram_workers clocks alloc_ok mb d threads = Some ws"
  unfolding run_ram_workers_eq
  using join_all_map [of "[0 ..< nat threads]" "\<lambda>i. ram_worker (clocks i) (alloc_ok i) i mb d"] assms
  by auto

lemma stress_ram_Inr:
  "stress_ram clocks alloc_ok size_mb d threads = Some (Inr ws) \<longleftrightarrow>
     threads \<noteq> 0 \<and> run_ram_workers clocks alloc_ok (size_mb div threads) d threads = Some ws"
  by (auto simp: stress_ram_def)

lemma stress_ram_Inl:
  "stress_ram clocks alloc_ok size_mb d threads = Some (Inl e) \<longleftrightarrow>
     threads = 0 \<and> e = ZeroDivisionError"
  by (auto simp: stress_ram_def)

lemma stress_cpu_Inr:
  "stress_cpu fsqrt cpu_count st clocks (Some n) d = Some (Inr rep) \<longleftrightarrow>
     1 \<le> n \<and> join_all (map (\<lambda>i. cpu_worker fsqrt (clocks i) i d st) [0 ..< nat n]) = Some (results rep)
       \<and> rep = \<lparr>results = results rep, total_primes = sum_list (results rep)\<rparr>"
  by (auto simp: stress_cpu_def range1_def split: option.splits)

text \<open>
  Claim C1, as the code has it, for a worker count \<open>n \<ge> 1\<close>. When every worker finishes,
  \<open>stress_cpu\<close> with \<open>n\<close> cores and \<open>stress_ram\<close> with \<open>n\<close> threads return, and whenever they
  return they have exactly \<open>n\<close> results, the result of worker \<open>i\<close> at position \<open>i\<close>; a RAM
  worker whose allocation fails still finishes and has its result in the list. The thread
  loop of \<open>stress_ram\<close> alone has one result per index of \<open>range(n)\<close> for every \<open>n\<close>.
\<close>

theorem pool_result_count:
  "(1 \<le> n \<longrightarrow>
      ((\<forall>i < nat n. cpu_worker fsqrt (clocks i) i duration start_time \<noteq> None) \<longrightarrow>
         (\<exists>rep. stress_cpu fsqrt cpu_count start_time clocks (Some n) duration = Some (Inr rep)))
    \<and> (stress_cpu fsqrt cpu_count start_time clocks (Some n) duration = Some (Inr rep) \<longrightarrow>
         int (length (results rep)) = n
       \<and> (\<forall>i < nat n. cpu_worker fsqrt (clocks i) i duration start_time = Some (results rep ! i)))
    \<and> ((\<forall>i < nat n. ram_worker (rclocks i) (alloc_ok i) i (size_mb div n) duration \<noteq> None) \<longrightarrow>
         (\<exists>ws. stress_ram rclocks alloc_ok size_mb duration n = Some (Inr ws)))
    \<and> (stress_ram rclocks alloc_ok size_mb duration n = Some (Inr ws) \<longrightarrow>
         int (length ws) = n
       \<and> (\<forall>i < nat n. ram_worker (rclocks i) (alloc_ok i) i (size_mb div n) duration
                          = Some (ws ! i))))
   \<and> (run_ram_workers rclocks alloc_ok mb duration n = Some ws' \<longrightarrow> length ws' = nat n)"
proof (intro conjI impI)
  assume n: "1 \<le> n" and fin: "\<forall>i < nat n. cpu_worker fsqrt (clocks i) i duration start_time \<noteq> None"
  from join_all_map [of "[0 ..< nat n]" "\<lambda>i. cpu_worker fsqrt (clocks i) i duration start_time"] fin
  obtain rs where "join_all (map (\<lambda>i. cpu_worker fsqrt (clocks i) i duration start_time) [0 ..< nat n]) = Some rs"
    by auto
  with n have "stress_cpu fsqrt cpu_count start_time clocks (Some n) duration
      = Some (Inr \<lparr>results = rs, total_primes = sum_list rs\<rparr>)"
    by (simp add: stress_cpu_def range1_def)
  then show "\<exists>rep. stress_cpu fsqrt cpu_count start_time clocks (Some n) duration = Some (Inr rep)"
    by blast
next
  assume n: "1 \<le> n"
    and r: "stress_cpu fsqrt cpu_count start_time clocks (Some n) duration = Some (Inr rep)"
  from r have j: "join_all (map (\<lambda>i. cpu_worker fsqrt (clocks i) i duration start_time) [0 ..< nat n])
      = Some (results rep)"
    by (simp add: stress_cpu_Inr)
  from join_all_map_result [OF j] n show "int (length (results rep)) = n" by simp
  from join_all_map_result [OF j]
  show "\<forall>i < nat n. cpu_worker fsqrt (clocks i) i duration start_time = Some (results rep ! i)"
    by simp
next
  assume n: "1 \<le> n"
    and fin: "\<forall>i < nat n. ram_worker (rclocks i) (alloc_ok i) i (size_mb div n) duration \<noteq> None"
  from run_ram_workers_returns [OF fin] n
  show "\<exists>ws. stress_ram rclocks alloc_ok size_mb duration n = Some (Inr ws)"
    by (auto simp: stress_ram_Inr)
next
  assume n: "1 \<le> n" and r: "stress_ram rclocks alloc_ok size_mb duration n = Some (Inr ws)"
  then have rr: "run_ram_workers rclocks alloc_ok (size_mb div n) duration n = Some ws"
    by (simp add: stress_ram_Inr)
  from run_ram_workers_result(1) [OF rr] n show "int (length ws) = n" by simp
  from run_ram_workers_result(2) [OF rr]
  show "\<forall>i < nat n. ram_worker (rclocks i) (alloc_ok i) i (size_mb div n) duration = Some (ws ! i)" .
next
  assume "run_ram_workers rclocks alloc_ok mb duration n = Some ws'"
  then show "length ws' = nat n" by (rule run_ram_workers_result(1))
qed

theorem pool_result_count_witness:
  "(\<exists>rep. stress_cpu isqrt 8 0 (\<lambda>i. [0, 1]) (Some 2) 1 = Some (Inr rep)
        \<and> int (length (results rep)) = 2)
   \<and> (\<exists>ws. stress_ram (\<lambda>i. [0, 2]) (\<lambda>i k. i \<noteq> 1) 4 1 2 = Some (Inr ws)
        \<and> int (length ws) = 2
        \<and> last (out (ws ! 1)) = Status (AllocFailed 1) Error)"
proof (intro conjI)
  have n: "(1::int) \<le> 2" by simp
  have fin: "\<forall>i < nat 2. cpu_worker isqrt ((\<lambda>i. [0, 1]) i) i 1 0 \<noteq> None"
    by (simp add: cpu_worker_None expired_def within_budget_def)
  note t = pool_result_count [where n = 2 and fsqrt = isqrt and clocks = "\<lambda>i. [0, 1]"
      and duration = 1 and start_time = 0 and cpu_count = 8, THEN conjunct1, THEN mp, OF n]
  from t [THEN conjunct1, THEN mp, OF fin]
  obtain rep where rep: "stress_cpu isqrt 8 0 (\<lambda>i. [0, 1]) (Some 2) 1 = Some (Inr rep)" by blast
  from t [THEN conjunct2, THEN conjunct1, THEN mp, OF rep]
  have "int (length (results rep)) = 2" by simp
  with rep show "\<exists>rep. stress_cpu isqrt 8 0 (\<lambda>i. [0, 1]) (Some 2) 1 = Some (Inr rep)
        \<and> int (length (results rep)) = 2" by blast
next
  have n: "(1::int) \<le> 2" by simp
  have fin: "\<forall>i < nat 2. ram_worker ((\<lambda>i. [0, 2]) i) ((\<lambda>i k. i \<noteq> 1) i) i (4 div 2) 1 \<noteq> None"
  proof (intro allI impI)
    fix i :: nat assume "i < nat 2"
    have "\<exists>r. ram_worker [0, 2] (\<lambda>k. i \<noteq> 1) i (4 div 2) 1 = Some r"
      unfolding ram_worker_returns by (simp add: expired_def within_budget_def)
    then show "ram_worker ((\<lambda>i. [0, 2]) i) ((\<lambda>i k. i \<noteq> 1) i) i (4 div 2) 1 \<noteq> None" by auto
  qed
  note t = pool_result_count [where n = 2 and rclocks = "\<lambda>i. [0, 2]"
      and alloc_ok = "\<lambda>i k. i \<noteq> 1" and size_mb = 4
      and duration = 1, THEN conjunct1, THEN mp, OF n]
  from t [THEN conjunct2, THEN conjunct2, THEN conjunct1, THEN mp, OF fin]
  obtain ws where ws: "stress_ram (\<lambda>i. [0, 2]) (\<lambda>i k. i \<noteq> 1) 4 1 2 = Some (Inr ws)" by blast
  from t [THEN conjunct2, THEN conjunct2, THEN conjunct2, THEN mp, OF ws]
  have len: "int (length ws) = 2"
    and w: "\<forall>i < nat 2. ram_worker [0, 2] (\<lambda>k. i \<noteq> 1) i (4 div 2) 1 = Some (ws ! i)"
    by simp_all
  from w have "(1::nat) < nat 2 \<longrightarrow> ram_worker [0, 2] (\<lambda>k. (1::nat) \<noteq> 1) 1 (4 div 2) 1 = Some (ws ! 1)"
    by (rule spec)
  then have w1: "ram_worker [0, 2] (\<lambda>k. False) 1 2 1 = Some (ws ! 1)" by simp
  have "\<exists>i < nat 2. \<not> (\<lambda>k::nat. False) i" by (rule exI [of _ 0]) simp
  then have "last (out (ws ! 1)) = Status (AllocFailed 1) Error"
    using w1 by (rule ram_worker_failure(2))
  with ws len show "\<exists>ws. stress_ram (\<lambda>i. [0, 2]) (\<lambda>i k. i \<noteq> 1) 4 1 2 = Some (Inr ws)
        \<and> int (length ws) = 2
        \<and> last (out (ws ! 1)) = Status (AllocFailed 1) Error" by blast
qed

text \<open>
  Claim C1 as stated fails for \<open>n = 0\<close>: \<open>stress_ram\<close> raises \<open>ZeroDivisionError\<close> at the
  division of line 153, and the process pool of \<open>stress_cpu\<close> refuses zero processes with
  \<open>ValueError\<close>; neither returns a list of zero results.
\<close>

theorem pool_zero_workers_raises:
  "stress_ram (every_worker [0, 60]) (every_worker (always True)) 1024 60 0
     = Some (Inl ZeroDivisionError)
   \<and> stress_cpu isqrt 8 0 (every_worker [0, 60]) (Some 0) 60 = Some (Inl ValueError)"
  by (simp add: stress_ram_def stress_cpu_def)

lemma sum_list_const: "(\<forall>x \<in> set xs. f x = c) \<Longrightarrow> sum_list (map f xs) = length xs * c"
  by (induction xs) simp_all

text \<open>
  Claim C7. For \<open>threads > 0\<close> every worker of \<open>stress_ram\<close> is given
  \<open>size_mb div threads\<close> (its first status line names that size), where \<open>div\<close> is integer
  division; the remainder \<open>size_mb mod threads\<close> is dropped: the sizes given to the workers
  add up to \<open>threads * (size_mb div threads) = size_mb - size_mb mod threads\<close>. When the size is not
  negative and every allocation succeeds, each worker holds \<open>size_mb div threads\<close> MiB and
  the workers together hold \<open>threads * (size_mb div threads)\<close> MiB.
\<close>

theorem ram_size_per_thread:
  "0 < threads \<Longrightarrow>
     ((\<forall>i < nat threads. ram_worker (clocks i) (alloc_ok i) i (size_mb div threads) duration \<noteq> None)
        \<longrightarrow> (\<exists>ws. stress_ram clocks alloc_ok size_mb duration threads = Some (Inr ws)))
   \<and> (stress_ram clocks alloc_ok size_mb duration threads = Some (Inr ws) \<longrightarrow>
        length ws = nat threads
      \<and> (\<forall>i < nat threads. hd (out (ws ! i)) = Status (RamStarted i (size_mb div threads)) Success)
      \<and> (0 \<le> size_mb \<and> (\<forall>i < nat threads. \<forall>k < nat (size_mb div threads). alloc_ok i k) \<longrightarrow>
           (\<forall>i < nat threads. int (bytes_allocated (ws ! i)) = (size_mb div threads) * int chunk_size)
         \<and> int (sum_list (map bytes_allocated ws))
             = threads * (size_mb div threads) * int chunk_size))
   \<and> map (fst \<circ> snd) (thread_args (size_mb div threads) duration threads)
       = replicate (nat threads) (size_mb div threads)
   \<and> sum_list (map (fst \<circ> snd) (thread_args (size_mb div threads) duration threads))
       = threads * (size_mb div threads)
   \<and> threads * (size_mb div threads) = size_mb - size_mb mod threads
   \<and> 0 \<le> size_mb mod threads \<and> size_mb mod threads < threads"
proof (intro conjI impI)
  assume t: "0 < threads"
    and fin: "\<forall>i < nat threads. ram_worker (clocks i) (alloc_ok i) i (size_mb div threads) duration \<noteq> None"
  from run_ram_workers_returns [OF fin] t
  show "\<exists>ws. stress_ram clocks alloc_ok size_mb duration threads = Some (Inr ws)"
    by (auto simp: stress_ram_Inr)
next
  assume t: "0 < threads"
  show args: "map (fst \<circ> snd) (thread_args (size_mb div threads) duration threads)
       = replicate (nat threads) (size_mb div threads)"
    by (simp add: thread_args_def range1_def o_def map_replicate_const)
  from t show "sum_list (map (fst \<circ> snd) (thread_args (size_mb div threads) duration threads))
       = threads * (size_mb div threads)"
    unfolding args by (simp add: sum_list_replicate)
  show "threads * (size_mb div threads) = size_mb - size_mb mod threads"
    by (simp add: minus_mod_eq_mult_div)
  from t show "0 \<le> size_mb mod threads" by simp
  from t show "size_mb mod threads < threads" by simp
next
  assume t: "0 < threads" and r: "stress_ram clocks alloc_ok size_mb duration threads = Some (Inr ws)"
  then have rr: "run_ram_workers clocks alloc_ok (size_mb div threads) duration threads = Some ws"
    by (simp add: stress_ram_Inr)
  note len = run_ram_workers_result(1) [OF rr]
  note w = run_ram_workers_result(2) [OF rr, rule_format]
  show "length ws = nat threads" by (rule len)
  show "\<forall>i < nat threads. hd (out (ws ! i)) = Status (RamStarted i (size_mb div threads)) Success"
    using w by (auto intro: ram_worker_started)
  {
    assume a: "0 \<le> size_mb \<and> (\<forall>i < nat threads. \<forall>k < nat (size_mb div threads). alloc_ok i k)"
    with t have nn: "0 \<le> size_mb div threads" by (simp add: pos_imp_zdiv_nonneg_iff)
    have each: "bytes_allocated (ws ! i) = nat (size_mb div threads) * chunk_size"
      if i: "i < nat threads" for i
    proof -
      from a i have ok: "\<forall>k < nat (size_mb div threads). alloc_ok i k" by blast
      from w [OF i] obtain st clock' where c: "clocks i = st # clock'"
        by (cases "clocks i") (simp_all add: ram_worker_def)
      from ram_worker_success(1) [OF ok w [OF i, unfolded c]]
      show ?thesis by (rule bytes_allocated_blocks)
    qed
    show "\<forall>i < nat threads. int (bytes_allocated (ws ! i)) = (size_mb div threads) * int chunk_size"
      using each nn by simp
    have "\<forall>x \<in> set ws. bytes_allocated x = nat (size_mb div threads) * chunk_size"
      using each len by (auto simp: in_set_conv_nth)
    then have "sum_list (map bytes_allocated ws) = length ws * (nat (size_mb div threads) * chunk_size)"
      by (rule sum_list_const)
    then have "int (sum_list (map bytes_allocated ws))
        = int (nat threads) * (int (nat (size_mb div threads)) * int chunk_size)"
      by (simp add: len)
    with t nn show "int (sum_list (map bytes_allocated ws))
             = threads * (size_mb div threads) * int chunk_size"
      by simp
  }
qed

theorem ram_size_per_thread_witness:
  "\<exists>ws. stress_ram (\<lambda>i. [0, 2]) (\<lambda>i k. True) 10 1 4 = Some (Inr ws)
        \<and> length ws = 4
        \<and> hd (out (ws ! 3)) = Status (RamStarted 3 2) Success
        \<and> int (bytes_allocated (ws ! 3)) = 2 * int chunk_size
        \<and> int (sum_list (map bytes_allocated ws)) = 8 * int chunk_size
        \<and> (4::int) * (10 div 4) = 10 - 10 mod 4"
proof -
  have t4: "(0::int) < 4" by simp
  have fin: "\<forall>i < nat 4. ram_worker ((\<lambda>i. [0, 2]) i) ((\<lambda>i k. True) i) i (10 div 4) 1 \<noteq> None"
  proof (intro allI impI)
    fix i :: nat
    have "\<exists>r. ram_worker [0, 2] (\<lambda>k. True) i (10 div 4) 1 = Some r"
      unfolding ram_worker_returns by (simp add: expired_def within_budget_def)
    then show "ram_worker ((\<lambda>i. [0, 2]) i) ((\<lambda>i k. True) i) i (10 div 4) 1 \<noteq> None" by auto
  qed
  note t = ram_size_per_thread [OF t4, where clocks = "\<lambda>i. [0, 2]" and alloc_ok = "\<lambda>i k. True"
      and size_mb = 10 and duration = 1]
  from t [THEN conjunct1, THEN mp, OF fin]
  obtain ws where ws: "stress_ram (\<lambda>i. [0, 2]) (\<lambda>i k. True) 10 1 4 = Some (Inr ws)" by blast
  from t [THEN conjunct2, THEN conjunct1, THEN mp, OF ws]
  have "length ws = 4"
    "hd (out (ws ! 3)) = Status (RamStarted 3 2) Success"
    "int (bytes_allocated (ws ! 3)) = 2 * int chunk_size"
    "int (sum_list (map bytes_allocated ws)) = 8 * int chunk_size"
    by simp_all
  with ws show ?thesis by simp
qed

lemma ram_worker_nothing_to_allocate:
  assumes "mb \<le> 0" and "ram_worker clock ok w mb d = Some r"
  shows "bytes_allocated r = 0" and "last (out r) = Status (RamFinished w) Success"
proof -
  from assms(2) obtain st clock' where c: "clock = st # clock'"
    by (cases clock) (simp_all add: ram_worker_def)
  from assms(1) have ok: "\<forall>i < nat mb. ok i" by simp
  from ram_worker_success(1) [OF ok assms(2) [unfolded c]]
  have "bytes_allocated r = nat mb * chunk_size" by (rule bytes_allocated_blocks)
  with assms(1) show "bytes_allocated r = 0" by simp
  show "last (out r) = Status (RamFinished w) Success"
    using ok assms(2) [unfolded c] by (rule ram_worker_success(4))
qed

text \<open>
  Claim C6, as the code has it. \<open>stress_ram\<close> checks nothing about its configuration. It
  stops before any worker is started only when \<open>threads\<close> is 0, where the division raises
  \<open>ZeroDivisionError\<close>. For every other \<open>threads\<close> it starts the workers of
  \<open>range(threads)\<close> whatever the size and the duration, and passes them
  \<open>size_mb div threads\<close>; when that is not positive each worker allocates nothing and
  finishes normally. \<open>stress_network\<close> with a mode other than server and client prints an
  error and starts no worker.
\<close>

theorem ram_config_not_validated:
  "(stress_ram clocks alloc_ok size_mb duration threads = Some (Inl e)
      \<longleftrightarrow> threads = 0 \<and> e = ZeroDivisionError)
   \<and> (threads \<noteq> 0
        \<and> (\<forall>i < nat threads.
              ram_worker (clocks i) (alloc_ok i) i (size_mb div threads) duration \<noteq> None)
      \<longrightarrow> (\<exists>ws. stress_ram clocks alloc_ok size_mb duration threads = Some (Inr ws)))
   \<and> (stress_ram clocks alloc_ok size_mb duration threads = Some (Inr ws) \<longrightarrow>
        threads \<noteq> 0 \<and> length ws = nat threads
      \<and> (\<forall>i < nat threads.
            ram_worker (clocks i) (alloc_ok i) i (size_mb div threads) duration = Some (ws ! i))
      \<and> (size_mb div threads \<le> 0 \<longrightarrow>
            (\<forall>i < nat threads. bytes_allocated (ws ! i) = 0
                \<and> last (out (ws ! i)) = Status (RamFinished i) Success)))
   \<and> (mode \<noteq> ''server'' \<and> mode \<noteq> ''client'' \<longrightarrow>
        (\<exists>r. stress_network server_answers client_answers mode duration clients = Some r
             \<and> Status InvalidMode Error \<in> set (printed r) \<and> workers_started r = 0))"
proof (intro conjI impI)
  show "stress_ram clocks alloc_ok size_mb duration threads = Some (Inl e)
      \<longleftrightarrow> threads = 0 \<and> e = ZeroDivisionError"
    by (rule stress_ram_Inl)
next
  assume "threads \<noteq> 0
        \<and> (\<forall>i < nat threads.
              ram_worker (clocks i) (alloc_ok i) i (size_mb div threads) duration \<noteq> None)"
  then have t: "threads \<noteq> 0"
    and fin: "\<forall>i < nat threads.
              ram_worker (clocks i) (alloc_ok i) i (size_mb div threads) duration \<noteq> None"
    by simp_all
  from run_ram_workers_returns [OF fin] t
  show "\<exists>ws. stress_ram clocks alloc_ok size_mb duration threads = Some (Inr ws)"
    by (auto simp: stress_ram_Inr)
next
  assume r: "stress_ram clocks alloc_ok size_mb duration threads = Some (Inr ws)"
  then show t: "threads \<noteq> 0" by (simp add: stress_ram_Inr)
  from r have rr: "run_ram_workers clocks alloc_ok (size_mb div threads) duration threads = Some ws"
    by (simp add: stress_ram_Inr)
  show "length ws = nat threads" using rr by (rule run_ram_workers_result(1))
  show w: "\<forall>i < nat threads.
            ram_worker (clocks i) (alloc_ok i) i (size_mb div threads) duration = Some (ws ! i)"
    using rr by (rule run_ram_workers_result(2))
  assume "size_mb div threads \<le> 0"
  then show "\<forall>i < nat threads. bytes_allocated (ws ! i) = 0
                \<and> last (out (ws ! i)) = Status (RamFinished i) Success"
    using w by (auto dest: ram_worker_nothing_to_allocate)
next
  assume "mode \<noteq> ''server'' \<and> mode \<noteq> ''client''"
  then show "\<exists>r. stress_network server_answers client_answers mode duration clients = Some r
             \<and> Status InvalidMode Error \<in> set (printed r) \<and> workers_started r = 0"
    by (simp add: stress_network_def print_header_def print_status_def workers_started_def)
qed

theorem ram_config_not_validated_witness:
  "(\<exists>ws. stress_ram (\<lambda>i. [0, 0]) (\<lambda>i k. True) 3 (- 5) 4 = Some (Inr ws)
        \<and> length ws = 4 \<and> bytes_allocated (ws ! 0) = 0
        \<and> last (out (ws ! 0)) = Status (RamFinished 0) Success)
   \<and> (\<exists>r. stress_network [] (\<lambda>i. []) ''both'' 60 4 = Some r
        \<and> Status InvalidMode Error \<in> set (printed r) \<and> workers_started r = 0)
   \<and> stress_ram (\<lambda>i. [0, 0]) (\<lambda>i k. True) 3 (- 5) 0 = Some (Inl ZeroDivisionError)"
proof (intro conjI)
  note t = ram_config_not_validated [where clocks = "\<lambda>i. [0, 0]" and alloc_ok = "\<lambda>i k. True"
      and size_mb = 3 and duration = "- 5" and threads = 4]
  have fin: "(4::int) \<noteq> 0 \<and> (\<forall>i < nat 4.
      ram_worker ((\<lambda>i. [0, 0]) i) ((\<lambda>i k. True) i) i (3 div 4) (- 5) \<noteq> None)"
  proof (intro conjI allI impI)
    fix i :: nat
    have "\<exists>r. ram_worker [0, 0] (\<lambda>k. True) i (3 div 4) (- 5) = Some r"
      unfolding ram_worker_returns by (simp add: expired_def within_budget_def)
    then show "ram_worker ((\<lambda>i. [0, 0]) i) ((\<lambda>i k. True) i) i (3 div 4) (- 5) \<noteq> None" by auto
  qed simp
  from t [THEN conjunct2, THEN conjunct1, THEN mp, OF fin]
  obtain ws where ws: "stress_ram (\<lambda>i. [0, 0]) (\<lambda>i k. True) 3 (- 5) 4 = Some (Inr ws)" by blast
  from t [THEN conjunct2, THEN conjunct2, THEN conjunct1, THEN mp, OF ws]
  have "length ws = 4" "bytes_allocated (ws ! 0) = 0"
    "last (out (ws ! 0)) = Status (RamFinished 0) Success"
    by simp_all
  with ws show "\<exists>ws. stress_ram (\<lambda>i. [0, 0]) (\<lambda>i k. True) 3 (- 5) 4 = Some (Inr ws)
        \<and> length ws = 4 \<and> bytes_allocated (ws ! 0) = 0
        \<and> last (out (ws ! 0)) = Status (RamFinished 0) Success" by simp
next
  from ram_config_not_validated [where mode = "''both''" and server_answers = "[]"
      and client_answers = "\<lambda>i. []" and duration = 60 and clients = 4,
      THEN conjunct2, THEN conjunct2, THEN conjunct2]
  show "\<exists>r. stress_network [] (\<lambda>i. []) ''both'' 60 4 = Some r
        \<and> Status InvalidMode Error \<in> set (printed r) \<and> workers_started r = 0"
    by simp
next
  from ram_config_not_validated [where clocks = "\<lambda>i. [0, 0]" and alloc_ok = "\<lambda>i k. True"
      and size_mb = 3 and duration = "- 5" and threads = 0 and e = ZeroDivisionError,
      THEN conjunct1]
  show "stress_ram (\<lambda>i. [0, 0]) (\<lambda>i k. True) 3 (- 5) 0 = Some (Inl ZeroDivisionError)"
    by simp
qed

text \<open>
  Claim C6 as stated fails: with 3 MB for 4 threads the per-thread size is 0, and in the
  second run the duration is \<open>- 5\<close> seconds; both runs start their workers and return
  their results (in the second each worker has allocated its 1 MiB) instead of failing
  before any worker is started.
\<close>

theorem ram_runs_with_invalid_config:
  "map_option (map_sum id (map bytes_allocated))
     (stress_ram (every_worker [0, 60]) (every_worker (always True)) 3 60 4)
     = Some (Inr [0, 0, 0, 0])
   \<and> (3::int) div 4 = 0
   \<and> map_option (map_sum id (map bytes_allocated))
     (stress_ram (every_worker [0, 0]) (every_worker (always True)) 2 (- 5) 2)
     = Some (Inr [1048576, 1048576])"
  by (simp add: stress_ram_def run_ram_workers_def thread_args_def range1_def ram_worker_def
      within_budget_def bytes_allocated_def print_status_def upt_rec every_worker_def
      always_def length_fill_block chunk_size_def)

section \<open>Properties: the network client and the mode switch\<close>

lemma length_data: "length data = 1024"
  by (simp add: data_def)

lemma client_inv_init: "client_inv client_init"
  by (simp add: client_inv_def client_init_def)

lemma client_inv_step: "client_inv c \<Longrightarrow> client_inv (client_step duration c a)"
  by (cases "cpc c"; cases a)
     (auto simp: client_inv_def client_step_def length_data)

lemma client_inv_run: "client_inv c \<Longrightarrow> client_inv (client_run duration c answers)"
  unfolding client_run_def
  by (induction answers arbitrary: c) (simp_all add: client_inv_step)

lemma client_inv_bound: "client_inv c \<Longrightarrow> 102400 * requests c \<le> bytes_sent c"
  by (cases "cpc c") (auto simp: client_inv_def)

lemma client_run_append:
  "client_run d c (xs @ ys) = client_run d (client_run d c xs) ys"
  by (simp add: client_run_def)

lemma client_run_Cons:
  "client_run d c (x # xs) = client_run d (client_step d c x) xs"
  by (simp add: client_run_def)

lemma client_run_Nil: "client_run d c [] = c"
  by (simp add: client_run_def)

lemma send_recv_step:
  assumes "cpc c = CSend k" "k + 1 < 100"
  shows "client_run d c [Returns, Data n] = c\<lparr>cpc := CSend (k + 1), bytes_sent := bytes_sent c + 1024\<rparr>"
  using assms by (simp add: client_run_def client_step_def length_data)

lemma send_recv_iterations:
  assumes "cpc c = CSend k" "k + m < 100"
  shows "client_run d c (concat (replicate m [Returns, Data n]))
         = c\<lparr>cpc := CSend (k + m), bytes_sent := bytes_sent c + 1024 * m\<rparr>"
  using assms
proof (induction m arbitrary: c k)
  case 0
  then show ?case by (simp add: client_run_Nil)
next
  case (Suc m)
  from Suc.prems have s: "client_run d c [Returns, Data n]
      = c\<lparr>cpc := CSend (k + 1), bytes_sent := bytes_sent c + 1024\<rparr>"
    by (intro send_recv_step) simp_all
  have "client_run d c (concat (replicate (Suc m) [Returns, Data n]))
      = client_run d (client_run d c [Returns, Data n]) (concat (replicate m [Returns, Data n]))"
    by (simp add: client_run_def)
  also have "\<dots> = (c\<lparr>cpc := CSend (k + 1), bytes_sent := bytes_sent c + 1024\<rparr>)
        \<lparr>cpc := CSend (k + 1 + m), bytes_sent := bytes_sent c + 1024 + 1024 * m\<rparr>"
    unfolding s using Suc.prems by (subst Suc.IH [where k = "k + 1"]) simp_all
  finally show ?case by simp
qed

lemma last_send_recv:
  assumes "cpc c = CSend 99"
  shows "client_run d c [Returns, Data n, Returns]
     = c\<lparr>cpc := CGuard, bytes_sent := bytes_sent c + 1024, requests := requests c + 1\<rparr>"
  using assms by (simp add: client_run_def client_step_def length_data)

lemma full_connection_split:
  "full_connection t = [Clock t, Returns, Returns] @ concat (replicate 99 [Returns, Data 1024])
      @ [Returns, Data 1024, Returns]"
proof -
  have "replicate (Suc 99) [Returns, Data 1024]
      = replicate 99 [Returns, Data 1024] @ [[Returns, Data 1024]]"
    by (simp only: replicate_Suc replicate_append_same)
  moreover have "(100::nat) = Suc 99" by simp
  ultimately have "replicate 100 [Returns, Data 1024]
      = replicate 99 [Returns, Data 1024] @ [[Returns, Data 1024]]"
    by (simp only:)
  then show ?thesis by (simp add: full_connection_def)
qed

lemma full_connection_run:
  assumes "cpc c = CGuard" "within_budget (cstart c) d t"
  shows "client_run d c (full_connection t)
     = c\<lparr>bytes_sent := bytes_sent c + 102400, requests := requests c + 1,
          csockets := csockets c + 1\<rparr>"
proof -
  define c1 where "c1 = c\<lparr>cpc := CSend 0, csockets := csockets c + 1\<rparr>"
  have 1: "client_run d c [Clock t, Returns, Returns] = c1"
    using assms by (simp add: client_run_def client_step_def c1_def)
  have 2: "client_run d c1 (concat (replicate 99 [Returns, Data 1024]))
      = c1\<lparr>cpc := CSend (0 + 99), bytes_sent := bytes_sent c1 + 1024 * 99\<rparr>"
    by (rule send_recv_iterations) (simp_all add: c1_def)
  define c2 where "c2 = c1\<lparr>cpc := CSend 99, bytes_sent := bytes_sent c1 + 1024 * 99\<rparr>"
  have 3: "client_run d c2 [Returns, Data 1024, Returns]
      = c2\<lparr>cpc := CGuard, bytes_sent := bytes_sent c2 + 1024, requests := requests c2 + 1\<rparr>"
    by (rule last_send_recv) (simp add: c2_def)
  have "client_run d c (full_connection t) = client_run d c2 [Returns, Data 1024, Returns]"
    unfolding full_connection_split client_run_append 1 2 c2_def by simp
  also note 3
  finally show ?thesis using assms(1) by (simp add: c2_def c1_def)
qed

lemma client_step_requests:
  assumes "client_inv c"
  shows "requests (client_step d c a) = requests c
         \<or> (cpc c = CRecv 99 \<and> requests (client_step d c a) = requests c + 1)"
  using assms
  by (cases "cpc c"; cases a) (auto simp: client_step_def client_inv_def)

lemma client_step_bytes:
  "bytes_sent (client_step d c a) = bytes_sent c
   \<or> ((\<exists>k. cpc c = CSend k) \<and> a = Returns
        \<and> bytes_sent (client_step d c a) = bytes_sent c + 1024)"
  by (cases "cpc c"; cases a) (auto simp: client_step_def length_data)

text \<open>
  Claim C10. Whatever the environment answers, at every point of the client's run
  \<open>bytes_sent \<ge> 102400 * requests\<close>. A connection in which every call succeeds adds
  exactly 102400 to \<open>bytes_sent\<close> and exactly 1 to \<open>requests\<close>. A step changes \<open>requests\<close>
  only when the echo of the 100th send arrives, and then by 1; a step changes
  \<open>bytes_sent\<close> only when a \<^verbatim>\<open>sendall\<close> returns, and then by 1024.
\<close>

theorem client_counters:
  "102400 * requests (client_run duration client_init answers)
     \<le> bytes_sent (client_run duration client_init answers)
   \<and> (cpc c = CGuard \<and> within_budget (cstart c) duration t \<longrightarrow>
        client_run duration c (full_connection t)
          = c\<lparr>bytes_sent := bytes_sent c + 102400, requests := requests c + 1,
               csockets := csockets c + 1\<rparr>)
   \<and> (c' = client_run duration client_init answers \<longrightarrow>
        (requests (client_step duration c' a) = requests c'
         \<or> (cpc c' = CRecv 99 \<and> requests (client_step duration c' a) = requests c' + 1))
      \<and> (bytes_sent (client_step duration c' a) = bytes_sent c'
         \<or> ((\<exists>k. cpc c' = CSend k) \<and> a = Returns
              \<and> bytes_sent (client_step duration c' a) = bytes_sent c' + 1024)))"
proof (intro conjI impI)
  show "102400 * requests (client_run duration client_init answers)
     \<le> bytes_sent (client_run duration client_init answers)"
    by (intro client_inv_bound client_inv_run client_inv_init)
next
  assume "cpc c = CGuard \<and> within_budget (cstart c) duration t"
  then show "client_run duration c (full_connection t)
          = c\<lparr>bytes_sent := bytes_sent c + 102400, requests := requests c + 1,
               csockets := csockets c + 1\<rparr>"
    by (intro full_connection_run) simp_all
next
  assume "c' = client_run duration client_init answers"
  then have "client_inv c'" by (simp add: client_inv_run client_inv_init)
  then show "requests (client_step duration c' a) = requests c'
         \<or> (cpc c' = CRecv 99 \<and> requests (client_step duration c' a) = requests c' + 1)"
    by (rule client_step_requests)
next
  show "bytes_sent (client_step duration c' a) = bytes_sent c'
         \<or> ((\<exists>k. cpc c' = CSend k) \<and> a = Returns
              \<and> bytes_sent (client_step duration c' a) = bytes_sent c' + 1024)"
    by (rule client_step_bytes)
qed

theorem client_counters_witness:
  "102400 * requests (client_run 10 client_init (Clock 0 # full_connection 1))
     \<le> bytes_sent (client_run 10 client_init (Clock 0 # full_connection 1))
   \<and> client_run 10 client_init (Clock 0 # full_connection 1)
       = \<lparr>cpc = CGuard, cstart = 0, bytes_sent = 102400, requests = 1, csockets = 1\<rparr>
   \<and> client_run 10 client_init (Clock 0 # full_connection 1 @ [Clock 2, Returns, Returns, Returns, Data 7, Raises])
       = \<lparr>cpc = CGuard, cstart = 0, bytes_sent = 103424, requests = 1, csockets = 2\<rparr>"
proof -
  define c0 where "c0 = client_init\<lparr>cpc := CGuard, cstart := 0\<rparr>"
  have s: "client_run 10 client_init (Clock 0 # xs) = client_run 10 c0 xs" for xs
    by (simp add: client_run_def client_step_def client_init_def c0_def)
  have pre: "cpc c0 = CGuard \<and> within_budget (cstart c0) 10 1"
    by (simp add: c0_def client_init_def within_budget_def)
  note t = client_counters [of 10 "Clock 0 # full_connection 1" c0 1]
  from t [THEN conjunct2, THEN conjunct1, THEN mp, OF pre]
  have run: "client_run 10 c0 (full_connection 1)
      = \<lparr>cpc = CGuard, cstart = 0, bytes_sent = 102400, requests = 1, csockets = 1\<rparr>"
    by (simp add: c0_def client_init_def)
  have "client_run 10 client_init (Clock 0 # full_connection 1 @ [Clock 2, Returns, Returns, Returns, Data 7, Raises])
      = client_run 10 (client_run 10 c0 (full_connection 1)) [Clock 2, Returns, Returns, Returns, Data 7, Raises]"
    by (simp only: s client_run_append)
  also have "\<dots> = \<lparr>cpc = CGuard, cstart = 0, bytes_sent = 103424, requests = 1, csockets = 2\<rparr>"
    unfolding run by (simp add: client_run_def client_step_def within_budget_def length_data)
  finally show ?thesis using t [THEN conjunct1] run by (simp add: s)
qed

text \<open>
  Claim C5. For every mode string other than "server" and "client", \<open>stress_network\<close>
  returns after printing the header and the error line "Invalid network mode": it has
  called neither the server nor any client, so no worker was started, no socket was
  created and no byte was transferred.
\<close>

theorem invalid_mode_no_work:
  "mode \<noteq> ''server'' \<and> mode \<noteq> ''client'' \<longrightarrow>
     (\<exists>r. stress_network server_answers client_answers mode duration clients = Some r
          \<and> printed r = [Header ''NETWORK STRESS TEST'', Status InvalidMode Error]
          \<and> server_of r = None \<and> clients_of r = []
          \<and> workers_started r = 0 \<and> sockets_opened r = 0 \<and> bytes_transferred r = 0)"
  by (simp add: stress_network_def print_header_def print_status_def workers_started_def
      sockets_opened_def bytes_transferred_def)

theorem invalid_mode_no_work_witness:
  "\<exists>r. stress_network [Returns, Clock 0, Clock 1, Returns] (\<lambda>i. [Clock 0, Clock 9]) ''both'' 5 4 = Some r
        \<and> printed r = [Header ''NETWORK STRESS TEST'', Status InvalidMode Error]
        \<and> server_of r = None \<and> clients_of r = []
        \<and> workers_started r = 0 \<and> sockets_opened r = 0 \<and> bytes_transferred r = 0"
  using invalid_mode_no_work [of "''both''" "[Returns, Clock 0, Clock 1, Returns]"
      "\<lambda>i. [Clock 0, Clock 9]" 5 4]
  by simp

text \<open>For comparison, the two valid modes do open sockets and start workers.\<close>

lemma valid_modes_work:
  "map_option sockets_opened
     (stress_network [Returns, Clock 0, Clock 1, Returns, Data 3, Returns, Data 0, Returns, Clock 9]
        (\<lambda>i. []) ''server'' 5 4) = Some 2"
  "map_option workers_started
     (stress_network [] (\<lambda>i. [Clock 0, Clock 9]) ''client'' 5 4) = Some 4"
  by (simp_all add: stress_network_def network_server_def server_run_def server_step_def
      server_init_def within_budget_def sockets_opened_def workers_started_def
      network_client_def client_run_def client_step_def client_init_def range1_def
      print_header_def print_status_def upt_rec)

end
